theory Spec2Isabelle
  imports Complex_Main "HOL-Library.AList"
begin

section \<open>Kaplan-Meier column inference and survival series (KaplanMeierPlot)\<close>

text \<open>
  The development embeds the pure helpers of the Kaplan-Meier plot component
  (\<^verbatim>\<open>src/unnamed/part_000\<close>): the tolerant field accessor, the permissive
  parsers, the heuristic column inference, the product-limit series builder, the
  at-risk lookup and the body of the mapping resolution effect.

  Modelling conventions.
  \<^item> A JavaScript number is an exact rational (\<^typ>\<open>rat\<close>); only finite numbers
    occur as row values (rows arrive as JSON). Rounding of doubles is not modelled.
  \<^item> A JavaScript string is a \<^typ>\<open>string\<close>, read as a sequence of Latin-1 code
    units.
  \<^item> \<^verbatim>\<open>undefined\<close> is \<open>None\<close> of an option type; \<^verbatim>\<open>null\<close> is the value \<open>JNull\<close>.
  \<^item> A row (\<^verbatim>\<open>Record<string, unknown>\<close>) is the list of its own properties in
    \<^verbatim>\<open>Object.keys\<close> order; a \<^verbatim>\<open>Map\<close> is an association list in insertion order,
    written with \<open>AList.update\<close> (replace in place, else append), which is what
    \<^verbatim>\<open>Map.prototype.set\<close> does.
  \<^item> The built-in conversions whose result depends on the engine are parameters
    (\<open>jsenv\<close>): \<^verbatim>\<open>Number(string)\<close> and \<^verbatim>\<open>String(number)\<close>, which depend on the
    double format, and the text \<^verbatim>\<open>String\<close> gives for a value inherited from
    \<^verbatim>\<open>Object.prototype\<close>. Every theorem holds for each choice of them.
  \<^item> The own values of a row are the JSON scalars: \<^verbatim>\<open>null\<close>, booleans, numbers and
    strings. Every row is a plain object, so the guards
    \<^verbatim>\<open>!row || typeof row !== 'object'\<close> never fire.
  \<^item> \<^verbatim>\<open>key in row\<close> holds for the row's own properties and for the names it inherits
    from \<^verbatim>\<open>Object.prototype\<close>; \<^verbatim>\<open>row[key]\<close> reads the own property first and else
    the inherited value, written \<open>JProto key\<close> (a function, or the prototype itself for
    \<^verbatim>\<open>__proto__\<close>).
  \<^item> Subject counts are integers (\<^typ>\<open>nat\<close> in a bucket, \<^typ>\<open>int\<close> for the
    running at-risk count, which the loop compares with zero).
\<close>

subsection \<open>Values, rows and the data model\<close>

datatype jsval = JNull | JBool bool | JNum rat | JStr string | JProto string

type_synonym KaplanRow = "(string \<times> jsval) list"

record jsenv =
  toNumber :: "string \<Rightarrow> rat option"
  numToString :: "rat \<Rightarrow> string"
  protoToString :: "string \<Rightarrow> string"

record SurvivalStep =
  time :: rat
  survival :: rat
  atRisk :: "int option"

record CensoredPoint =
  ctime :: rat
  csurvival :: rat

record KaplanSeries =
  group :: string
  steps :: "SurvivalStep list"
  censored :: "CensoredPoint list"
  atRiskMap :: "(rat \<times> int) list"

record ColumnMapping =
  mtime :: string
  mgroup :: "string option"
  mevent :: "string option"
  mcensored :: "string option"
  msurvival :: "string option"

record Bucket =
  events :: nat
  bcensored :: nat

subsection \<open>String helpers\<close>

definition isSpace :: "char \<Rightarrow> bool" where
  "isSpace c \<longleftrightarrow>
     c \<in> set [CHR 0x09, CHR 0x0A, CHR 0x0B, CHR 0x0C, CHR 0x0D, CHR 0x20, CHR 0xA0]"

definition trim :: "string \<Rightarrow> string" where
  "trim s = rev (dropWhile isSpace (rev (dropWhile isSpace s)))"

definition lowerChar :: "char \<Rightarrow> char" where
  "lowerChar c =
     (let n = (of_char c :: nat)
      in if (65 \<le> n \<and> n \<le> 90) \<or> (192 \<le> n \<and> n \<le> 222 \<and> n \<noteq> 215)
         then char_of (n + 32) else c)"

definition toLowerCase :: "string \<Rightarrow> string" where
  "toLowerCase s = map lowerChar s"

definition asciiLower :: "char \<Rightarrow> char" where
  "asciiLower c =
     (let n = (of_char c :: nat)
      in if 65 \<le> n \<and> n \<le> 90 then char_of (n + 32) else c)"

definition asciiUpper :: "char \<Rightarrow> char" where
  "asciiUpper c =
     (let n = (of_char c :: nat)
      in if 97 \<le> n \<and> n \<le> 122 then char_of (n - 32) else c)"

text \<open>\<^verbatim>\<open>s.replace(/[class]+/g, r)\<close>: every maximal run of characters of the class
  becomes one copy of \<open>r\<close>. The flag says whether the previous character was in the
  class.\<close>

fun replaceRunsFrom :: "(char \<Rightarrow> bool) \<Rightarrow> string \<Rightarrow> bool \<Rightarrow> string \<Rightarrow> string" where
  "replaceRunsFrom P r inRun [] = []"
| "replaceRunsFrom P r inRun (c # cs) =
     (if P c then (if inRun then [] else r) @ replaceRunsFrom P r True cs
      else c # replaceRunsFrom P r False cs)"

definition replaceRuns :: "(char \<Rightarrow> bool) \<Rightarrow> string \<Rightarrow> string \<Rightarrow> string" where
  "replaceRuns P r s = replaceRunsFrom P r False s"

definition isSepChar :: "char \<Rightarrow> bool" where
  "isSepChar c \<longleftrightarrow> c = CHR ''_'' \<or> c = CHR ''-''"

definition isSpaceOrUnderscore :: "char \<Rightarrow> bool" where
  "isSpaceOrUnderscore c \<longleftrightarrow> isSpace c \<or> c = CHR ''_''"

text \<open>A pattern such as \<^verbatim>\<open>/time/i\<close> is its lower-case literal; \<open>regexTest\<close> is
  \<^verbatim>\<open>pattern.test(s)\<close>: some substring of \<open>s\<close> equals the literal up to ASCII
  case.\<close>

fun matchesAt :: "string \<Rightarrow> string \<Rightarrow> bool" where
  "matchesAt [] s = True"
| "matchesAt (p # ps) [] = False"
| "matchesAt (p # ps) (c # cs) = (asciiLower c = p \<and> matchesAt ps cs)"

fun regexTest :: "string \<Rightarrow> string \<Rightarrow> bool" where
  "regexTest p [] = matchesAt p []"
| "regexTest p (c # cs) = (matchesAt p (c # cs) \<or> regexTest p cs)"

subsection \<open>Permissive parsers\<close>

definition keepNumChar :: "char \<Rightarrow> bool" where
  "keepNumChar c \<longleftrightarrow> c \<in> set ''0123456789eE.+-''"

definition parseNumber :: "jsenv \<Rightarrow> jsval option \<Rightarrow> rat option" where
  "parseNumber J raw =
     (case raw of
        None \<Rightarrow> None
      | Some JNull \<Rightarrow> None
      | Some (JNum x) \<Rightarrow> Some x
      | Some (JStr s) \<Rightarrow> toNumber J (filter keepNumChar (trim s))
      | Some (JBool b) \<Rightarrow> None
      | Some (JProto name) \<Rightarrow> None)"

definition parseBoolean :: "jsval option \<Rightarrow> bool option" where
  "parseBoolean raw =
     (case raw of
        None \<Rightarrow> None
      | Some JNull \<Rightarrow> None
      | Some (JBool b) \<Rightarrow> Some b
      | Some (JNum x) \<Rightarrow> Some (x > 0)
      | Some (JStr s) \<Rightarrow>
          (let normalized = toLowerCase (trim s)
           in if normalized = [] then None
              else if normalized \<in> set [''true'', ''yes'', ''y'', ''1''] then Some True
              else if normalized \<in> set [''false'', ''no'', ''n'', ''0''] then Some False
              else None)
      | Some (JProto name) \<Rightarrow> None)"

text \<open>\<^verbatim>\<open>String(raw)\<close> for a value that is neither \<^verbatim>\<open>null\<close> nor \<^verbatim>\<open>undefined\<close>
  at its call sites.\<close>

definition jsString :: "jsenv \<Rightarrow> jsval \<Rightarrow> string" where
  "jsString J v =
     (case v of
        JNull \<Rightarrow> ''null''
      | JBool b \<Rightarrow> (if b then ''true'' else ''false'')
      | JNum x \<Rightarrow> numToString J x
      | JStr s \<Rightarrow> s
      | JProto name \<Rightarrow> protoToString J name)"

text \<open>\<^verbatim>\<open>a ?? b\<close> on possibly-undefined values.\<close>

definition nullish :: "jsval option \<Rightarrow> bool" where
  "nullish v \<longleftrightarrow> v = None \<or> v = Some JNull"

definition orElse :: "jsval option \<Rightarrow> jsval option \<Rightarrow> jsval option" where
  "orElse a b = (if nullish a then b else a)"

text \<open>Truthiness of an optional column name: present and not the empty string.\<close>

definition truthyKey :: "string option \<Rightarrow> bool" where
  "truthyKey k \<longleftrightarrow> (case k of None \<Rightarrow> False | Some s \<Rightarrow> s \<noteq> [])"

text \<open>The same test returning the name: \<open>Some s\<close> exactly for a truthy \<open>s\<close>.\<close>

definition present :: "string option \<Rightarrow> string option" where
  "present k = (case k of None \<Rightarrow> None | Some s \<Rightarrow> if s = [] then None else Some s)"

subsection \<open>The tolerant accessor \<^verbatim>\<open>getValue\<close>\<close>

definition normalizeKey :: "string \<Rightarrow> string" where
  "normalizeKey s = toLowerCase (replaceRuns isSpaceOrUnderscore [] s)"

fun scanKeys :: "KaplanRow \<Rightarrow> string \<Rightarrow> string list \<Rightarrow> jsval option" where
  "scanKeys row target [] = None"
| "scanKeys row target (candidate # rest) =
     (if normalizeKey candidate = target then map_of row candidate
      else scanKeys row target rest)"

text \<open>The property names every plain object inherits from \<^verbatim>\<open>Object.prototype\<close>.\<close>

definition prototypeKeys :: "string list" where
  "prototypeKeys =
     [''constructor'', ''hasOwnProperty'', ''isPrototypeOf'', ''propertyIsEnumerable'',
      ''toLocaleString'', ''toString'', ''valueOf'', ''__defineGetter__'',
      ''__defineSetter__'', ''__lookupGetter__'', ''__lookupSetter__'', ''__proto__'']"

text \<open>\<^verbatim>\<open>key in row\<close> and \<^verbatim>\<open>row[key]\<close>.\<close>

definition hasProperty :: "KaplanRow \<Rightarrow> string \<Rightarrow> bool" where
  "hasProperty row key \<longleftrightarrow> key \<in> fst ` set row \<or> key \<in> set prototypeKeys"

definition readProperty :: "KaplanRow \<Rightarrow> string \<Rightarrow> jsval option" where
  "readProperty row key =
     (case map_of row key of
        Some v \<Rightarrow> Some v
      | None \<Rightarrow> if key \<in> set prototypeKeys then Some (JProto key) else None)"

definition getValue :: "KaplanRow \<Rightarrow> string \<Rightarrow> jsval option" where
  "getValue row key =
     (if key = [] then None
      else if hasProperty row key then readProperty row key
      else let trimmed = trim key in
        if trimmed \<noteq> [] \<and> hasProperty row trimmed then readProperty row trimmed
        else let collapsed = replaceRuns isSpace [] trimmed in
          if collapsed \<noteq> [] \<and> hasProperty row collapsed then readProperty row collapsed
          else let underscored = replaceRuns isSpace ''_'' trimmed in
            if underscored \<noteq> [] \<and> hasProperty row underscored
            then readProperty row underscored
            else let normalizedTarget = normalizeKey trimmed in
              if normalizedTarget = [] then None
              else scanKeys row normalizedTarget (map fst row))"

definition getValueOpt :: "KaplanRow \<Rightarrow> string option \<Rightarrow> jsval option" where
  "getValueOpt row key =
     (case key of None \<Rightarrow> None | Some k \<Rightarrow> if k \<noteq> [] then getValue row k else None)"

subsection \<open>Event-based construction (\<^verbatim>\<open>buildEventSeries\<close>)\<close>

definition eventWords :: "string list" where
  "eventWords = [''true'', ''yes'', ''y'', ''event'', ''dead'', ''death'', ''failed'',
                 ''failure'', ''1'']"

definition censorWords :: "string list" where
  "censorWords = [''false'', ''no'', ''n'', ''censored'', ''censor'', ''alive'',
                  ''survived'', ''0'']"

definition rowIsEvent :: "jsenv \<Rightarrow> ColumnMapping \<Rightarrow> KaplanRow \<Rightarrow> bool" where
  "rowIsEvent J m row =
     (let eventRaw = getValueOpt row (mevent m)
      in case eventRaw of
           None \<Rightarrow> True
         | Some JNull \<Rightarrow> True
         | Some v \<Rightarrow>
             (let s = toLowerCase (trim (jsString J v))
              in case parseNumber J eventRaw of
                   Some n \<Rightarrow> n > 0
                 | None \<Rightarrow>
                     if s \<in> set eventWords then True
                     else if s \<in> set censorWords then False
                     else True))"

definition rowCensorFlag :: "ColumnMapping \<Rightarrow> KaplanRow \<Rightarrow> bool option" where
  "rowCensorFlag m row =
     parseBoolean
       (if truthyKey (mcensored m) then getValueOpt row (mcensored m)
        else orElse (getValue row ''censored'')
               (orElse (getValue row ''censor'')
                  (orElse (getValue row ''Censored'') (getValue row ''Censor''))))"

definition rowCensored :: "jsenv \<Rightarrow> ColumnMapping \<Rightarrow> KaplanRow \<Rightarrow> bool" where
  "rowCensored J m row =
     (case rowCensorFlag m row of Some b \<Rightarrow> b | None \<Rightarrow> \<not> rowIsEvent J m row)"

definition rowGroup :: "jsenv \<Rightarrow> ColumnMapping \<Rightarrow> KaplanRow \<Rightarrow> string" where
  "rowGroup J m row =
     (case getValueOpt row (mgroup m) of
        None \<Rightarrow> ''Group''
      | Some JNull \<Rightarrow> ''Group''
      | Some v \<Rightarrow> jsString J v)"

definition countsAsEvent :: "jsenv \<Rightarrow> ColumnMapping \<Rightarrow> KaplanRow \<Rightarrow> bool" where
  "countsAsEvent J m row \<longleftrightarrow> rowIsEvent J m row \<and> \<not> rowCensored J m row"

type_synonym Timeline = "(rat \<times> Bucket) list"

definition addToBucket :: "bool \<Rightarrow> Bucket \<Rightarrow> Bucket" where
  "addToBucket isEv b =
     (if isEv then b\<lparr>events := events b + 1\<rparr> else b\<lparr>bcensored := bcensored b + 1\<rparr>)"

definition addEventRow ::
  "jsenv \<Rightarrow> ColumnMapping \<Rightarrow> KaplanRow \<Rightarrow> (string \<times> Timeline) list \<Rightarrow> (string \<times> Timeline) list"
where
  "addEventRow J m row grouped =
     (case parseNumber J (getValue row (mtime m)) of
        None \<Rightarrow> grouped
      | Some t \<Rightarrow>
          (let g = rowGroup J m row;
               timeline = (case map_of grouped g of None \<Rightarrow> [] | Some existing \<Rightarrow> existing);
               bucket = (case map_of timeline t of
                           None \<Rightarrow> \<lparr>events = 0, bcensored = 0\<rparr> | Some b \<Rightarrow> b)
           in AList.update g
                (AList.update t (addToBucket (countsAsEvent J m row) bucket) timeline)
                grouped))"

definition groupEventRows ::
  "jsenv \<Rightarrow> ColumnMapping \<Rightarrow> KaplanRow list \<Rightarrow> (string \<times> Timeline) list" where
  "groupEventRows J m rows = fold (addEventRow J m) rows []"

text \<open>The running variables of the per-group loop.\<close>

record LoopState =
  curAtRisk :: int
  curSurvival :: rat
  accSteps :: "SurvivalStep list"
  accCensored :: "CensoredPoint list"
  accAtRiskMap :: "(rat \<times> int) list"

definition bucketSize :: "Bucket \<Rightarrow> int" where
  "bucketSize b = int (events b) + int (bcensored b)"

definition totalSubjects :: "Timeline \<Rightarrow> int" where
  "totalSubjects timeline = fold (\<lambda>(t, b) acc. acc + bucketSize b) timeline 0"

definition initLoop :: "Timeline \<Rightarrow> LoopState" where
  "initLoop timeline =
     (let total = totalSubjects timeline
      in \<lparr>curAtRisk = total, curSurvival = 100,
          accSteps = [\<lparr>time = 0, survival = 100, atRisk = Some total\<rparr>],
          accCensored = [],
          accAtRiskMap = [(0, total)]\<rparr>)"

text \<open>One iteration of \<^verbatim>\<open>orderedTimes.forEach\<close>. The loop runs over the keys of
  \<open>timeline\<close>, so the lookup \<^verbatim>\<open>timeline.get(time)!\<close> always finds its bucket; the
  \<open>None\<close> branch is never taken there.\<close>

definition loopStep :: "Timeline \<Rightarrow> rat \<Rightarrow> LoopState \<Rightarrow> LoopState" where
  "loopStep timeline t st =
     (let st1 = st\<lparr>accAtRiskMap := AList.update t (curAtRisk st) (accAtRiskMap st)\<rparr>
      in if curAtRisk st \<le> 0 then st1
         else case map_of timeline t of
           None \<Rightarrow> st1
         | Some bucket \<Rightarrow>
             (let surv = (if events bucket > 0
                          then curSurvival st *
                               (of_int (curAtRisk st - int (events bucket)) / of_int (curAtRisk st))
                          else curSurvival st)
              in st1\<lparr>curSurvival := surv,
                     accSteps := accSteps st @
                       [\<lparr>time = t, survival = surv, atRisk = Some (curAtRisk st)\<rparr>],
                     accCensored := accCensored st @
                       replicate (bcensored bucket) \<lparr>ctime = t, csurvival = surv\<rparr>,
                     curAtRisk := curAtRisk st - bucketSize bucket\<rparr>))"

definition orderedTimes :: "Timeline \<Rightarrow> rat list" where
  "orderedTimes timeline = sort (map fst timeline)"

definition runTimeline :: "Timeline \<Rightarrow> LoopState" where
  "runTimeline timeline = fold (loopStep timeline) (orderedTimes timeline) (initLoop timeline)"

definition seriesOfGroup :: "string \<times> Timeline \<Rightarrow> KaplanSeries" where
  "seriesOfGroup gt =
     (let st = runTimeline (snd gt)
      in \<lparr>group = fst gt, steps = accSteps st, censored = accCensored st,
          atRiskMap = accAtRiskMap st\<rparr>)"

definition buildEventSeries :: "jsenv \<Rightarrow> KaplanRow list \<Rightarrow> ColumnMapping \<Rightarrow> KaplanSeries list"
where
  "buildEventSeries J rows m = map seriesOfGroup (groupEventRows J m rows)"

subsection \<open>Survival-percentage construction (\<^verbatim>\<open>buildSurvivalSeries\<close>)\<close>

definition ensurePercent :: "rat \<Rightarrow> rat" where
  "ensurePercent v = (if v \<le> 1 then v * 100 else v)"

definition isWordChar :: "char \<Rightarrow> bool" where
  "isWordChar c \<longleftrightarrow>
     (let n = (of_char c :: nat)
      in (48 \<le> n \<and> n \<le> 57) \<or> (65 \<le> n \<and> n \<le> 90) \<or> (97 \<le> n \<and> n \<le> 122) \<or> n = 95)"

text \<open>\<^verbatim>\<open>s.replace(/\b\w/g, c => c.toUpperCase())\<close>: the flag says whether the
  previous character was a word character.\<close>

fun capitalizeFrom :: "bool \<Rightarrow> string \<Rightarrow> string" where
  "capitalizeFrom prevWord [] = []"
| "capitalizeFrom prevWord (c # cs) =
     (if isWordChar c \<and> \<not> prevWord then asciiUpper c else c) # capitalizeFrom (isWordChar c) cs"

definition prettifyLabel :: "string \<Rightarrow> string" where
  "prettifyLabel v =
     (let r = trim (capitalizeFrom False
                (replaceRuns isSpace '' '' (replaceRuns isSepChar '' '' v)))
      in if r = [] then ''Series'' else r)"

definition seedStep :: SurvivalStep where
  "seedStep = \<lparr>time = 0, survival = 100, atRisk = None\<rparr>"

definition survivalRowGroup :: "jsenv \<Rightarrow> ColumnMapping \<Rightarrow> string \<Rightarrow> KaplanRow \<Rightarrow> string" where
  "survivalRowGroup J m survivalKey row =
     (case getValueOpt row (mgroup m) of
        None \<Rightarrow> prettifyLabel survivalKey
      | Some JNull \<Rightarrow> prettifyLabel survivalKey
      | Some v \<Rightarrow> jsString J v)"

definition survivalRowCensored :: "ColumnMapping \<Rightarrow> KaplanRow \<Rightarrow> bool" where
  "survivalRowCensored m row =
     (case parseBoolean (if truthyKey (mcensored m) then getValueOpt row (mcensored m)
                         else getValue row ''censored'') of
        Some b \<Rightarrow> b | None \<Rightarrow> False)"

definition addSurvivalRow ::
  "jsenv \<Rightarrow> ColumnMapping \<Rightarrow> string \<Rightarrow> KaplanRow \<Rightarrow> (string \<times> KaplanSeries) list
     \<Rightarrow> (string \<times> KaplanSeries) list"
where
  "addSurvivalRow J m survivalKey row grouped =
     (case parseNumber J (getValue row (mtime m)) of
        None \<Rightarrow> grouped
      | Some t \<Rightarrow>
          (case parseNumber J (getValue row survivalKey) of
             None \<Rightarrow> grouped
           | Some sv \<Rightarrow>
               (let g = survivalRowGroup J m survivalKey row;
                    percent = ensurePercent sv;
                    series = (case map_of grouped g of
                                None \<Rightarrow> \<lparr>group = g, steps = [seedStep], censored = [],
                                         atRiskMap = []\<rparr>
                              | Some existing \<Rightarrow> existing);
                    pushed = series\<lparr>steps := steps series @
                               [\<lparr>time = t, survival = percent, atRisk = None\<rparr>]\<rparr>
                in AList.update g
                     (if survivalRowCensored m row
                      then pushed\<lparr>censored := censored pushed @
                                   [\<lparr>ctime = t, csurvival = percent\<rparr>]\<rparr>
                      else pushed)
                     grouped)))"

text \<open>The closing pass over each group: a stable sort by time, then the forced
  \<open>(0, 100)\<close> head.\<close>

definition finishSurvivalSeries :: "KaplanSeries \<Rightarrow> KaplanSeries" where
  "finishSurvivalSeries series =
     series\<lparr>steps := (case sort_key time (steps series) of
                         [] \<Rightarrow> [seedStep]
                       | s # rest \<Rightarrow>
                           if time s \<noteq> 0 then seedStep # s # rest
                           else s\<lparr>survival := 100\<rparr> # rest),
             censored := sort_key ctime (censored series)\<rparr>"

definition buildSurvivalSeries ::
  "jsenv \<Rightarrow> KaplanRow list \<Rightarrow> ColumnMapping \<Rightarrow> KaplanSeries list" where
  "buildSurvivalSeries J rows m =
     (case msurvival m of
        None \<Rightarrow> []
      | Some survivalKey \<Rightarrow>
          if survivalKey = [] then []
          else map (finishSurvivalSeries \<circ> snd)
                 (fold (addSurvivalRow J m survivalKey) rows []))"

subsection \<open>Dispatch (\<^verbatim>\<open>buildSeries\<close>)\<close>

definition buildSeries :: "jsenv \<Rightarrow> KaplanRow list \<Rightarrow> ColumnMapping \<Rightarrow> KaplanSeries list" where
  "buildSeries J rows m =
     (if mtime m = [] then []
      else if truthyKey (mevent m) then buildEventSeries J rows m
      else if truthyKey (msurvival m) then buildSurvivalSeries J rows m
      else buildEventSeries J rows m)"

subsection \<open>At-risk lookup (\<^verbatim>\<open>getAtRiskAtTime\<close>)\<close>

text \<open>The result is a count, the dash, or \<^verbatim>\<open>undefined\<close> where a non-null assertion
  \<^verbatim>\<open>get(...)!\<close> reads a key that is not there.\<close>

datatype AtRiskResult = Count int | Dash | Undefined

definition closestStep :: "rat \<Rightarrow> rat \<Rightarrow> rat \<Rightarrow> rat" where
  "closestStep q t closestTime = (if t \<le> q \<and> t > closestTime then t else closestTime)"

definition mapGet :: "(rat \<times> int) list \<Rightarrow> rat \<Rightarrow> AtRiskResult" where
  "mapGet m t = (case map_of m t of None \<Rightarrow> Undefined | Some n \<Rightarrow> Count n)"

definition getAtRiskAtTime :: "KaplanSeries \<Rightarrow> rat \<Rightarrow> AtRiskResult" where
  "getAtRiskAtTime series q =
     (if atRiskMap series = [] then Dash
      else if q \<in> fst ` set (atRiskMap series) then mapGet (atRiskMap series) q
      else let closestTime = fold (closestStep q) (map fst (atRiskMap series)) (- 1)
           in if closestTime \<noteq> - 1 then mapGet (atRiskMap series) closestTime
              else case steps series of
                     [] \<Rightarrow> Dash
                   | s # rest \<Rightarrow> (case atRisk s of None \<Rightarrow> Dash | Some n \<Rightarrow> Count n))"

subsection \<open>Heuristic column inference\<close>

definition TIME_PATTERNS :: "string list" where
  "TIME_PATTERNS = [''time'', ''month'', ''week'', ''day'', ''follow'']"

definition GROUP_PATTERNS :: "string list" where
  "GROUP_PATTERNS = [''group'', ''arm'', ''cohort'', ''treatment'', ''variant'', ''strata'']"

definition EVENT_PATTERNS :: "string list" where
  "EVENT_PATTERNS = [''event'', ''status'', ''outcome'', ''dead'', ''death'', ''failure'',
                     ''recurrence'']"

definition SURVIVAL_PATTERNS :: "string list" where
  "SURVIVAL_PATTERNS = [''survival'', ''surv'', ''prob'', ''pct'', ''percent'']"

definition CENSOR_PATTERNS :: "string list" where
  "CENSOR_PATTERNS = [''censor'']"

definition keyMatches :: "string list \<Rightarrow> string \<Rightarrow> bool" where
  "keyMatches patterns key =
     (let trimmed = trim key;
          normalized = replaceRuns isSepChar '' '' trimmed;
          collapsed = replaceRuns isSpace [] normalized
      in list_ex (\<lambda>pattern. regexTest pattern key \<or> regexTest pattern normalized
                              \<or> regexTest pattern collapsed) patterns)"

fun findByPatterns :: "string list \<Rightarrow> string list \<Rightarrow> string option" where
  "findByPatterns [] patterns = None"
| "findByPatterns (key # keys) patterns =
     (if keyMatches patterns key then Some key else findByPatterns keys patterns)"

text \<open>Insertion into a \<^verbatim>\<open>Set\<close>: first occurrence keeps its place.\<close>

definition setAdd :: "'a \<Rightarrow> 'a list \<Rightarrow> 'a list" where
  "setAdd x xs = (if x \<in> set xs then xs else xs @ [x])"

definition collectKeys :: "KaplanRow list \<Rightarrow> string list" where
  "collectKeys rows = fold (\<lambda>row acc. fold setAdd (map fst row) acc) rows []"

text \<open>The running tallies of one column over the sampled rows: the distinct
  trimmed values, the string count and the numeric count.\<close>

definition sampleValue ::
  "jsenv \<Rightarrow> string \<Rightarrow> KaplanRow \<Rightarrow> string list \<times> nat \<times> nat \<Rightarrow> string list \<times> nat \<times> nat"
where
  "sampleValue J key row acc =
     (case getValue row key of
        None \<Rightarrow> acc
      | Some JNull \<Rightarrow> acc
      | Some raw \<Rightarrow>
          (let stringValue = trim (jsString J raw)
           in if stringValue = [] then acc
              else case acc of (vals, stringCount, numericCount) \<Rightarrow>
                if parseNumber J (Some raw) \<noteq> None
                then (setAdd stringValue vals, stringCount, numericCount + 1)
                else (setAdd stringValue vals, stringCount + 1, numericCount)))"

definition considerKey ::
  "jsenv \<Rightarrow> KaplanRow list \<Rightarrow> string list \<Rightarrow> string \<Rightarrow> (string \<times> int) option
     \<Rightarrow> (string \<times> int) option"
where
  "considerKey J samples reservedKeys key bestCandidate =
     (if key \<in> set reservedKeys then bestCandidate
      else case fold (sampleValue J key) samples ([], 0, 0) of
        (vals, stringCount, numericCount) \<Rightarrow>
          if length vals < 2 \<or> length vals > 20 then bestCandidate
          else let isLowCardinality = (length vals \<le> 10);
                   categoricalScore = int stringCount - int numericCount
               in if categoricalScore \<le> 0 \<and> \<not> isLowCardinality then bestCandidate
                  else let totalScore = categoricalScore + int (min (length vals) 10)
                       in case bestCandidate of
                            None \<Rightarrow> Some (key, totalScore)
                          | Some (bestKey, bestScore) \<Rightarrow>
                              if totalScore > bestScore then Some (key, totalScore)
                              else bestCandidate)"

definition inferGroupColumn ::
  "jsenv \<Rightarrow> KaplanRow list \<Rightarrow> string list \<Rightarrow> string list \<Rightarrow> string option" where
  "inferGroupColumn J rows keys reservedKeys =
     (let scanned = map_option fst
                      (fold (considerKey J (take 50 rows) reservedKeys) keys None)
      in case present (findByPatterns keys GROUP_PATTERNS) of
           Some explicit \<Rightarrow> if explicit \<notin> set reservedKeys then Some explicit else scanned
         | None \<Rightarrow> scanned)"

definition findTimeKey :: "string list \<Rightarrow> string option" where
  "findTimeKey keys =
     (case findByPatterns keys TIME_PATTERNS of
        Some k \<Rightarrow> Some k
      | None \<Rightarrow> find (\<lambda>key. regexTest ''month'' key \<or> regexTest ''week'' key
                              \<or> regexTest ''day'' key) keys)"

definition reservedFor :: "string \<Rightarrow> string option \<Rightarrow> string option \<Rightarrow> string list" where
  "reservedFor timeKey eventCandidate survivalCandidate =
     [timeKey] @ (case present eventCandidate of Some e \<Rightarrow> [e] | None \<Rightarrow> [])
               @ (case present survivalCandidate of Some sv \<Rightarrow> [sv] | None \<Rightarrow> [])"

definition deriveMappingHeuristically ::
  "jsenv \<Rightarrow> KaplanRow list \<Rightarrow> ColumnMapping option \<times> rat" where
  "deriveMappingHeuristically J rows =
     (if rows = [] then (None, 0)
      else let keys = collectKeys rows in
        if ''time'' \<in> set keys \<and> ''status'' \<in> set keys \<and> ''group'' \<in> set keys
        then (Some \<lparr>mtime = ''time'', mgroup = Some ''group'', mevent = Some ''status'',
                     mcensored = None, msurvival = None\<rparr>, 1)
        else case findTimeKey keys of
          None \<Rightarrow> (None, 0)
        | Some timeKey \<Rightarrow>
            if timeKey = [] then (None, 0)
            else let eventCandidate = findByPatterns keys EVENT_PATTERNS;
                     survivalCandidate = findByPatterns keys SURVIVAL_PATTERNS;
                     reserved = reservedFor timeKey eventCandidate survivalCandidate;
                     groupKey = inferGroupColumn J rows keys reserved;
                     censorKey = findByPatterns keys CENSOR_PATTERNS;
                     mapping = \<lparr>mtime = timeKey, mgroup = present groupKey, mevent = None,
                                mcensored = present censorKey, msurvival = None\<rparr>
                 in case present eventCandidate of
                      Some ev \<Rightarrow>
                        (Some (mapping\<lparr>mevent := Some ev\<rparr>),
                         if truthyKey groupKey then 4 / 5 else 3 / 5)
                    | None \<Rightarrow>
                        (case present survivalCandidate of
                           Some sv \<Rightarrow>
                             (Some (mapping\<lparr>msurvival := Some sv,
                                            mgroup := (if truthyKey groupKey then groupKey
                                                       else Some (prettifyLabel sv))\<rparr>),
                              if truthyKey groupKey then 7 / 10 else 1 / 2)
                         | None \<Rightarrow> (None, 0)))"

subsection \<open>Mapping resolution (\<^verbatim>\<open>fetchLLMMapping\<close>, \<^verbatim>\<open>resolveMapping\<close>)\<close>

record LLMColumnInference =
  mapping :: "ColumnMapping option"
  confidence :: "rat option"
  reasoning :: "string option"

text \<open>What one call of the inference endpoint can come to: \<^verbatim>\<open>fetch\<close> rejects, the
  status is not a success, the body is not JSON, or the body parses to a payload
  (\<open>None\<close> for a \<^verbatim>\<open>null\<close> body).\<close>

datatype FetchOutcome =
    NetworkError
  | HttpFailure nat
  | BodyNotJson
  | Body "LLMColumnInference option"

text \<open>The collaborator is a function from the posted sample to the outcome of the
  call. \<open>fetchLLMMapping\<close> returns the list of samples it posted (none or one) with its
  result.\<close>

definition fetchLLMMapping ::
  "(KaplanRow list \<Rightarrow> FetchOutcome) \<Rightarrow> KaplanRow list
     \<Rightarrow> KaplanRow list list \<times> LLMColumnInference option"
where
  "fetchLLMMapping collaborator rows =
     (if rows = [] then ([], None)
      else ([take 25 rows],
            case collaborator (take 25 rows) of
              NetworkError \<Rightarrow> None
            | HttpFailure status \<Rightarrow> None
            | BodyNotJson \<Rightarrow> None
            | Body None \<Rightarrow> None
            | Body (Some payload) \<Rightarrow>
                (if mapping payload = None then None else Some payload)))"

text \<open>The component state the effect writes, with the log of the calls made to the
  collaborator and to \<^verbatim>\<open>onColumnMappingResolved\<close>.\<close>

record ViewState =
  columnMapping :: "ColumnMapping option"
  mappingConfidence :: rat
  llmAttempted :: bool
  requests :: "KaplanRow list list"
  notified :: "(ColumnMapping \<times> rat \<times> bool) list"

text \<open>\<open>cancelled\<close> is the value of the effect's flag when the awaited call
  returns.\<close>

definition useHeuristic :: "ColumnMapping option \<times> rat \<Rightarrow> ViewState \<Rightarrow> ViewState" where
  "useHeuristic heuristicMapping st =
     (case fst heuristicMapping of
        Some hm \<Rightarrow> st\<lparr>columnMapping := Some hm, mappingConfidence := snd heuristicMapping,
                      notified := notified st @ [(hm, snd heuristicMapping, False)]\<rparr>
      | None \<Rightarrow> st\<lparr>columnMapping := None, mappingConfidence := 0\<rparr>)"

text \<open>The part of the effect after \<^verbatim>\<open>await fetchLLMMapping(data)\<close>, when the flag is
  still clear.\<close>

definition afterFetch ::
  "ColumnMapping option \<times> rat \<Rightarrow> LLMColumnInference option \<Rightarrow> ViewState \<Rightarrow> ViewState" where
  "afterFetch heuristicMapping llmResult st =
     (case llmResult of
        None \<Rightarrow> useHeuristic heuristicMapping st
      | Some payload \<Rightarrow>
          (case mapping payload of
             None \<Rightarrow> useHeuristic heuristicMapping st
           | Some lm \<Rightarrow>
               (let c = (case confidence payload of
                           Some x \<Rightarrow> x | None \<Rightarrow> snd heuristicMapping)
                in st\<lparr>columnMapping := Some lm, mappingConfidence := c,
                      llmAttempted := True,
                      notified := notified st @ [(lm, c, True)]\<rparr>)))"

definition acceptsHeuristic :: "ColumnMapping option \<times> rat \<Rightarrow> bool" where
  "acceptsHeuristic heuristicMapping \<longleftrightarrow>
     fst heuristicMapping \<noteq> None \<and> snd heuristicMapping \<ge> 3 / 4"

definition resolveMapping ::
  "ColumnMapping option \<times> rat \<Rightarrow> KaplanRow list \<Rightarrow> (KaplanRow list \<Rightarrow> FetchOutcome)
     \<Rightarrow> bool \<Rightarrow> ViewState \<Rightarrow> ViewState"
where
  "resolveMapping heuristicMapping rows collaborator cancelled st =
     (if acceptsHeuristic heuristicMapping then useHeuristic heuristicMapping st
      else case fetchLLMMapping collaborator rows of
        (posted, llmResult) \<Rightarrow>
          (let st1 = st\<lparr>requests := requests st @ posted\<rparr>
           in if cancelled then st1 else afterFetch heuristicMapping llmResult st1))"

subsection \<open>A concrete choice of the built-in conversions\<close>

text \<open>The closed examples below need one concrete \<open>jsenv\<close>. \<open>sampleEnv\<close> agrees with
  JavaScript on what the examples read: \<^verbatim>\<open>Number('')\<close> is \<open>0\<close>, a string of decimal
  digits is its value, and an integer is printed by its decimal digits. Strings of
  another shape are treated as not a number, and a value that is not an integer is
  printed by its integer part followed by a question mark; none occurs in the
  examples. Inherited values are printed the way V8 prints them.\<close>

definition isDigit :: "char \<Rightarrow> bool" where
  "isDigit c \<longleftrightarrow> 48 \<le> (of_char c :: nat) \<and> (of_char c :: nat) \<le> 57"

definition readDigits :: "string \<Rightarrow> nat" where
  "readDigits s = fold (\<lambda>c n. 10 * n + ((of_char c :: nat) - 48)) s 0"

fun showNat :: "nat \<Rightarrow> string" where
  "showNat n =
     (if n < 10 then [char_of (48 + n)]
      else showNat (n div 10) @ [char_of (48 + n mod 10)])"

definition showInt :: "int \<Rightarrow> string" where
  "showInt i = (if i < 0 then CHR ''-'' # showNat (nat (- i)) else showNat (nat i))"

definition sampleEnv :: jsenv where
  "sampleEnv =
     \<lparr>toNumber = (\<lambda>s. if s = [] then Some 0
                         else if list_all isDigit s then Some (of_nat (readDigits s))
                         else None),
      numToString = (\<lambda>x. if x = of_int \<lfloor>x\<rfloor> then showInt \<lfloor>x\<rfloor>
                            else showInt \<lfloor>x\<rfloor> @ ''?''),
      protoToString = (\<lambda>name. if name = ''__proto__'' then ''[object Object]''
                                else if name = ''constructor''
                                then ''function Object() { [native code] }''
                                else ''function '' @ name @ ''() { [native code] }'')\<rparr>"

subsection \<open>Notions used in the statements\<close>

text \<open>A row whose time value parses (the builders drop the others).\<close>

definition parseable :: "jsenv \<Rightarrow> ColumnMapping \<Rightarrow> KaplanRow \<Rightarrow> bool" where
  "parseable J m row \<longleftrightarrow> parseNumber J (getValue row (mtime m)) \<noteq> None"

text \<open>The mappings that \<^verbatim>\<open>buildSeries\<close> hands to the event-based construction.\<close>

definition usesEventConstruction :: "ColumnMapping \<Rightarrow> bool" where
  "usesEventConstruction m \<longleftrightarrow> truthyKey (mevent m) \<or> \<not> truthyKey (msurvival m)"

text \<open>The subjects in the buckets of the times still to be visited.\<close>

definition bucketAt :: "Timeline \<Rightarrow> rat \<Rightarrow> int" where
  "bucketAt timeline t = (case map_of timeline t of None \<Rightarrow> 0 | Some b \<Rightarrow> bucketSize b)"

definition stillToCome :: "Timeline \<Rightarrow> rat list \<Rightarrow> int" where
  "stillToCome timeline ts = sum_list (map (bucketAt timeline) ts)"

text \<open>The number of subjects tallied as events over all groups and buckets.\<close>

definition timelineEvents :: "Timeline \<Rightarrow> nat" where
  "timelineEvents timeline = sum_list (map (events \<circ> snd) timeline)"

definition eventCount :: "(string \<times> Timeline) list \<Rightarrow> nat" where
  "eventCount grouped = sum_list (map (timelineEvents \<circ> snd) grouped)"

text \<open>The value of the local \<^verbatim>\<open>groupKey\<close> of \<^verbatim>\<open>deriveMappingHeuristically\<close>
  once a time column has been selected.\<close>

definition heuristicGroupKey :: "jsenv \<Rightarrow> KaplanRow list \<Rightarrow> string option" where
  "heuristicGroupKey J rows =
     (let keys = collectKeys rows
      in case findTimeKey keys of
           None \<Rightarrow> None
         | Some timeKey \<Rightarrow>
             inferGroupColumn J rows keys
               (reservedFor timeKey (findByPatterns keys EVENT_PATTERNS)
                  (findByPatterns keys SURVIVAL_PATTERNS)))"

text \<open>The outcomes that give no mapping: the call fails, the status is not a success,
  the body is not JSON, or the body is \<^verbatim>\<open>null\<close> or has a \<^verbatim>\<open>null\<close> mapping.\<close>

definition collaboratorFailed :: "FetchOutcome \<Rightarrow> bool" where
  "collaboratorFailed outcome =
     (case outcome of
        NetworkError \<Rightarrow> True
      | HttpFailure status \<Rightarrow> True
      | BodyNotJson \<Rightarrow> True
      | Body None \<Rightarrow> True
      | Body (Some payload) \<Rightarrow> mapping payload = None)"

subsection \<open>Example inputs\<close>

definition scenarioRows :: "KaplanRow list" where
  "scenarioRows =
     [[(''time'', JNum 0), (''status'', JNum 1), (''group'', JStr ''A'')],
      [(''time'', JNum 5), (''status'', JNum 1), (''group'', JStr ''A'')],
      [(''time'', JNum 5), (''status'', JNum 0), (''group'', JStr ''A'')],
      [(''time'', JNum 10), (''status'', JNum 1), (''group'', JStr ''A'')]]"

definition scenarioMapping :: ColumnMapping where
  "scenarioMapping =
     \<lparr>mtime = ''time'', mgroup = Some ''group'', mevent = Some ''status'',
      mcensored = None, msurvival = None\<rparr>"

definition scenarioSeries :: KaplanSeries where
  "scenarioSeries =
     \<lparr>group = ''A'',
      steps = [\<lparr>time = 0, survival = 100, atRisk = Some 4\<rparr>,
               \<lparr>time = 0, survival = 75, atRisk = Some 4\<rparr>,
               \<lparr>time = 5, survival = 50, atRisk = Some 3\<rparr>,
               \<lparr>time = 10, survival = 0, atRisk = Some 1\<rparr>],
      censored = [\<lparr>ctime = 5, csurvival = 50\<rparr>],
      atRiskMap = [(0, 4), (5, 3), (10, 1)]\<rparr>"

definition negativeRows :: "KaplanRow list" where
  "negativeRows =
     [[(''time'', JNum (- 5)), (''status'', JNum 1), (''group'', JStr ''A'')],
      [(''time'', JNum (- 3)), (''status'', JNum 1), (''group'', JStr ''A'')]]"


definition risingRows :: "KaplanRow list" where
  "risingRows =
     [[(''month'', JNum 1), (''pct'', JNum 50)],
      [(''month'', JNum 2), (''pct'', JNum 80)]]"

definition risingMapping :: ColumnMapping where
  "risingMapping =
     \<lparr>mtime = ''month'', mgroup = None, mevent = None, mcensored = None,
      msurvival = Some ''pct''\<rparr>"

definition censoringRows :: "KaplanRow list" where
  "censoringRows =
     [[(''time'', JNum 2), (''status'', JNum 1), (''group'', JStr ''A'')],
      [(''time'', JNum 4), (''status'', JNum 0), (''group'', JStr ''A'')],
      [(''time'', JNum 4), (''status'', JNum 0), (''group'', JStr ''A'')],
      [(''time'', JNum 6), (''status'', JNum 1), (''group'', JStr ''A'')]]"

definition censoringTimeline :: Timeline where
  "censoringTimeline =
     [(2, \<lparr>events = 1, bcensored = 0\<rparr>), (4, \<lparr>events = 0, bcensored = 2\<rparr>),
      (6, \<lparr>events = 1, bcensored = 0\<rparr>)]"

definition timeOnlyMapping :: ColumnMapping where
  "timeOnlyMapping =
     \<lparr>mtime = ''months'', mgroup = None, mevent = None, mcensored = None, msurvival = None\<rparr>"

definition timeOnlyData :: "KaplanRow list" where
  "timeOnlyData =
     [[(''months'', JNum 3)],
      [(''months'', JNum 7), (''censored'', JStr ''yes'')],
      [(''months'', JNull)]]"

definition fastPathRows :: "KaplanRow list" where
  "fastPathRows =
     [[(''event_month'', JNum 3), (''survival_pct'', JNum 80), (''arm'', JStr ''X'')],
      [(''group'', JStr ''A''), (''time'', JNum 5), (''status'', JNum 1)]]"

definition overlapRows :: "KaplanRow list" where
  "overlapRows = [[(''time_to_event'', JNum 5), (''arm'', JStr ''A'')]]"

definition overlapSurvivalRows :: "KaplanRow list" where
  "overlapSurvivalRows = [[(''survival_months'', JNum 12)]]"

definition eventGroupRows :: "KaplanRow list" where
  "eventGroupRows =
     [[(''months'', JNum 1), (''outcome'', JNum 1), (''arm'', JStr ''A'')],
      [(''months'', JNum 2), (''outcome'', JNum 0), (''arm'', JStr ''B'')]]"

definition eventOnlyRows :: "KaplanRow list" where
  "eventOnlyRows = [[(''months'', JNum 1), (''outcome'', JNum 1)]]"

definition eventOnlyMapping :: ColumnMapping where
  "eventOnlyMapping =
     \<lparr>mtime = ''months'', mgroup = None, mevent = Some ''outcome'', mcensored = None,
      msurvival = None\<rparr>"

definition survivalGroupRows :: "KaplanRow list" where
  "survivalGroupRows = [[(''months'', JNum 6), (''pct'', JNum 80), (''arm'', JStr ''X'')]]"

definition survivalOnlyRows :: "KaplanRow list" where
  "survivalOnlyRows = [[(''months'', JNum 6), (''pct'', JNum 80)]]"

definition timeOnlyRows :: "KaplanRow list" where
  "timeOnlyRows = [[(''months'', JNum 6), (''height'', JNum 170)]]"

text \<open>The component's initial state (\<^verbatim>\<open>useState\<close> defaults) with empty logs.\<close>

definition initialView :: ViewState where
  "initialView =
     \<lparr>columnMapping = None, mappingConfidence = 0, llmAttempted = False, requests = [],
      notified = []\<rparr>"

definition answeringCollaborator :: "KaplanRow list \<Rightarrow> FetchOutcome" where
  "answeringCollaborator sample =
     Body (Some \<lparr>mapping = Some scenarioMapping, confidence = Some (1 / 10),
                  reasoning = None\<rparr>)"

definition failingCollaborator :: "KaplanRow list \<Rightarrow> FetchOutcome" where
  "failingCollaborator sample = NetworkError"

section \<open>The worked scenario\<close>

text \<open>
  Claim C1, as stated: on the scenario rows \<^verbatim>\<open>buildSeries\<close> yields a step
  \<open>(time = 5, survival = 75, atRisk = 4)\<close>, a step \<open>(10, 37.5, 2)\<close> and a final at-risk
  count of 1. It does not: the first row is an event at time 0, so the curve already
  drops to 75 at time 0, and no step at time 5 or 10 has the stated values.
\<close>

theorem scenario_steps_counterexample:
  "\<lparr>time = 5, survival = 75, atRisk = Some 4\<rparr>
     \<notin> set (concat (map steps (buildSeries sampleEnv scenarioRows scenarioMapping)))
   \<and> \<lparr>time = 10, survival = 75 / 2, atRisk = Some 2\<rparr>
     \<notin> set (concat (map steps (buildSeries sampleEnv scenarioRows scenarioMapping)))
   \<and> map (curAtRisk \<circ> runTimeline \<circ> snd) (groupEventRows sampleEnv scenarioMapping scenarioRows)
     \<noteq> [1]"
  by code_simp

text \<open>
  Claim C1, amended: on the scenario rows \<^verbatim>\<open>buildSeries\<close> returns exactly one
  series, for group \<open>A\<close>, with total subject count 4, whose step sequence is
  \<open>(0, 100, 4)\<close>, \<open>(0, 75, 4)\<close>, \<open>(5, 50, 3)\<close>, \<open>(10, 0, 1)\<close>, with one censored point
  \<open>(5, 50)\<close> and at-risk map \<open>0 \<mapsto> 4, 5 \<mapsto> 3, 10 \<mapsto> 1\<close>; the at-risk count after
  the last time point is 0.
\<close>

theorem scenario_series:
  "buildSeries J scenarioRows scenarioMapping =
     [\<lparr>group = ''A'',
       steps = [\<lparr>time = 0, survival = 100, atRisk = Some 4\<rparr>,
                \<lparr>time = 0, survival = 75, atRisk = Some 4\<rparr>,
                \<lparr>time = 5, survival = 50, atRisk = Some 3\<rparr>,
                \<lparr>time = 10, survival = 0, atRisk = Some 1\<rparr>],
       censored = [\<lparr>ctime = 5, csurvival = 50\<rparr>],
       atRiskMap = [(0, 4), (5, 3), (10, 1)]\<rparr>]
   \<and> map (totalSubjects \<circ> snd) (groupEventRows J scenarioMapping scenarioRows) = [4]
   \<and> map (curAtRisk \<circ> runTimeline \<circ> snd) (groupEventRows J scenarioMapping scenarioRows) = [0]"
  by code_simp

section \<open>Heuristic inference\<close>

subsection \<open>The collected keys\<close>

lemma set_fold_setAdd: "set (fold setAdd xs acc) = set xs \<union> set acc"
  by (induction xs arbitrary: acc) (auto simp: setAdd_def)

lemma set_collect_from:
  "set (fold (\<lambda>row acc. fold setAdd (map fst row) acc) rows acc) =
     (\<Union>row\<in>set rows. fst ` set row) \<union> set acc"
  by (induction rows arbitrary: acc) (auto simp: set_fold_setAdd)

lemma set_collectKeys: "set (collectKeys rows) = (\<Union>row\<in>set rows. fst ` set row)"
  by (simp add: collectKeys_def set_collect_from)

subsection \<open>Fast path\<close>

text \<open>
  Claim C3: for every non-empty rows collection whose union of keys includes the exact
  keys \<open>time\<close>, \<open>status\<close> and \<open>group\<close>, the heuristic inference returns the mapping
  \<open>{time: 'time', event: 'status', group: 'group'}\<close> with confidence 1, whatever other
  columns are present.
\<close>

theorem fast_path_precedence:
  assumes "rows \<noteq> []"
    and "\<exists>row\<in>set rows. ''time'' \<in> fst ` set row"
    and "\<exists>row\<in>set rows. ''status'' \<in> fst ` set row"
    and "\<exists>row\<in>set rows. ''group'' \<in> fst ` set row"
  shows "deriveMappingHeuristically J rows =
           (Some \<lparr>mtime = ''time'', mgroup = Some ''group'', mevent = Some ''status'',
                   mcensored = None, msurvival = None\<rparr>, 1)"
proof -
  have "''time'' \<in> set (collectKeys rows)" "''status'' \<in> set (collectKeys rows)"
    "''group'' \<in> set (collectKeys rows)"
    using assms(2-4) by (auto simp: set_collectKeys)
  with assms(1) show ?thesis
    by (simp add: deriveMappingHeuristically_def Let_def)
qed

text \<open>The witness has the three keys in its second row, after a first row whose
  columns match the event, survival, time and group patterns.\<close>

theorem fast_path_precedence_witness:
  "fastPathRows \<noteq> []
   \<and> keyMatches EVENT_PATTERNS ''event_month''
   \<and> keyMatches SURVIVAL_PATTERNS ''survival_pct''
   \<and> deriveMappingHeuristically sampleEnv fastPathRows =
       (Some \<lparr>mtime = ''time'', mgroup = Some ''group'', mevent = Some ''status'',
               mcensored = None, msurvival = None\<rparr>, 1)"
proof -
  have ne: "fastPathRows \<noteq> []" by (simp add: fastPathRows_def)
  have t: "\<exists>row\<in>set fastPathRows. ''time'' \<in> fst ` set row"
    and s: "\<exists>row\<in>set fastPathRows. ''status'' \<in> fst ` set row"
    and g: "\<exists>row\<in>set fastPathRows. ''group'' \<in> fst ` set row"
    by (simp_all add: fastPathRows_def)
  have e: "keyMatches EVENT_PATTERNS ''event_month''" by code_simp
  have p: "keyMatches SURVIVAL_PATTERNS ''survival_pct''" by code_simp
  show ?thesis
    using ne e p fast_path_precedence [OF ne t s g, of sampleEnv] by simp
qed

subsection \<open>The event search and the time column\<close>

text \<open>
  Claim C4 says that the event and survival searches exclude the column already
  selected as the time column. The code passes the full key list to both searches
  (only the group search consults the reserved set), so a single column whose name
  matches both a time and an event pattern is returned as both: for the one-row input
  \<open>{time_to_event: 5, arm: 'A'}\<close> the mapping has \<open>time = event = time_to_event\<close>, at
  confidence 0.8, and for \<open>{survival_months: 12}\<close> it has
  \<open>time = survival = survival_months\<close>.
\<close>

theorem overlap_time_event:
  "deriveMappingHeuristically sampleEnv overlapRows =
     (Some \<lparr>mtime = ''time_to_event'', mgroup = Some ''arm'',
             mevent = Some ''time_to_event'', mcensored = None, msurvival = None\<rparr>, 4 / 5)
   \<and> deriveMappingHeuristically sampleEnv overlapSurvivalRows =
     (Some \<lparr>mtime = ''survival_months'', mgroup = Some ''Survival Months'',
             mevent = None, mcensored = None, msurvival = Some ''survival_months''\<rparr>, 1 / 2)"
  by code_simp

subsection \<open>Confidence assignment\<close>

lemma findByPatterns_None_iff:
  "findByPatterns keys P = None \<longleftrightarrow> (\<forall>k\<in>set keys. \<not> keyMatches P k)"
  by (induction keys) auto

lemma findByPatterns_SomeD:
  "findByPatterns keys P = Some k \<Longrightarrow> k \<in> set keys \<and> keyMatches P k"
  by (induction keys) (auto split: if_splits)

lemma matchesAt_Nil: "matchesAt p [] \<longleftrightarrow> p = []"
  by (cases p) auto

lemma keyMatches_Nil: "[] \<notin> set P \<Longrightarrow> \<not> keyMatches P []"
  by (auto simp: keyMatches_def trim_def replaceRuns_def list_ex_iff matchesAt_Nil)

lemma patterns_nonempty:
  "[] \<notin> set TIME_PATTERNS" "[] \<notin> set EVENT_PATTERNS" "[] \<notin> set SURVIVAL_PATTERNS"
  "[] \<notin> set GROUP_PATTERNS" "[] \<notin> set CENSOR_PATTERNS"
  by (simp_all add: TIME_PATTERNS_def EVENT_PATTERNS_def SURVIVAL_PATTERNS_def
      GROUP_PATTERNS_def CENSOR_PATTERNS_def)

lemma present_findByPatterns:
  "[] \<notin> set P \<Longrightarrow> present (findByPatterns keys P) = findByPatterns keys P"
  by (cases "findByPatterns keys P")
     (auto simp: present_def dest!: findByPatterns_SomeD dest: keyMatches_Nil)

lemma fallback_in_TIME:
  "regexTest ''month'' k \<or> regexTest ''week'' k \<or> regexTest ''day'' k
     \<Longrightarrow> keyMatches TIME_PATTERNS k"
  by (auto simp: keyMatches_def TIME_PATTERNS_def Let_def)

lemma findTimeKey_eq: "findTimeKey keys = findByPatterns keys TIME_PATTERNS"
proof (cases "findByPatterns keys TIME_PATTERNS")
  case None
  then have "\<forall>k\<in>set keys. \<not> keyMatches TIME_PATTERNS k"
    by (simp add: findByPatterns_None_iff)
  then have "find (\<lambda>key. regexTest ''month'' key \<or> regexTest ''week'' key
                              \<or> regexTest ''day'' key) keys = None"
    unfolding find_None_iff using fallback_in_TIME by blast
  with None show ?thesis by (simp add: findTimeKey_def)
next
  case (Some k)
  then show ?thesis by (simp add: findTimeKey_def)
qed

text \<open>
  Claim C7: for every non-empty rows collection not taken by the fast path and having
  a time column, the heuristic returns confidence 0.8 when an event-pattern column and
  a group column are both found, 0.6 for an event-pattern column without a group
  column, 0.7 for a survival-pattern column (no event-pattern column) with a group
  column, 0.5 for one without, and a null mapping with confidence 0 when neither an
  event-pattern nor a survival-pattern column is found.
\<close>

theorem heuristic_confidence:
  assumes "rows \<noteq> []"
    and "\<not> (''time'' \<in> set (collectKeys rows) \<and> ''status'' \<in> set (collectKeys rows)
            \<and> ''group'' \<in> set (collectKeys rows))"
    and "\<exists>k\<in>set (collectKeys rows). keyMatches TIME_PATTERNS k"
  shows "snd (deriveMappingHeuristically J rows) =
           (if \<exists>k\<in>set (collectKeys rows). keyMatches EVENT_PATTERNS k
            then (if truthyKey (heuristicGroupKey J rows) then 4 / 5 else 3 / 5)
            else if \<exists>k\<in>set (collectKeys rows). keyMatches SURVIVAL_PATTERNS k
            then (if truthyKey (heuristicGroupKey J rows) then 7 / 10 else 1 / 2)
            else 0)
         \<and> (fst (deriveMappingHeuristically J rows) = None \<longleftrightarrow>
              \<not> (\<exists>k\<in>set (collectKeys rows). keyMatches EVENT_PATTERNS k)
              \<and> \<not> (\<exists>k\<in>set (collectKeys rows). keyMatches SURVIVAL_PATTERNS k))"
proof -
  let ?keys = "collectKeys rows"
  obtain timeKey where tk: "findTimeKey ?keys = Some timeKey"
    using assms(3) by (cases "findTimeKey ?keys") (auto simp: findTimeKey_eq findByPatterns_None_iff)
  then have tne: "timeKey \<noteq> []"
    using findByPatterns_SomeD [of ?keys TIME_PATTERNS timeKey] keyMatches_Nil [of TIME_PATTERNS]
      patterns_nonempty(1) by (auto simp: findTimeKey_eq)
  have ev: "(present (findByPatterns ?keys EVENT_PATTERNS) = None) \<longleftrightarrow>
              \<not> (\<exists>k\<in>set ?keys. keyMatches EVENT_PATTERNS k)"
    by (simp add: present_findByPatterns patterns_nonempty findByPatterns_None_iff)
  have sv: "(present (findByPatterns ?keys SURVIVAL_PATTERNS) = None) \<longleftrightarrow>
              \<not> (\<exists>k\<in>set ?keys. keyMatches SURVIVAL_PATTERNS k)"
    by (simp add: present_findByPatterns patterns_nonempty findByPatterns_None_iff)
  have g: "heuristicGroupKey J rows =
             inferGroupColumn J rows ?keys
               (reservedFor timeKey (findByPatterns ?keys EVENT_PATTERNS)
                  (findByPatterns ?keys SURVIVAL_PATTERNS))"
    by (simp add: heuristicGroupKey_def tk Let_def)
  show ?thesis
    using assms(1,2) tk tne ev sv
    by (auto simp add: deriveMappingHeuristically_def Let_def g split: option.splits)
qed


lemma confidence_premises:
  "eventGroupRows \<noteq> []" "eventOnlyRows \<noteq> []" "survivalGroupRows \<noteq> []"
  "survivalOnlyRows \<noteq> []" "timeOnlyRows \<noteq> []"
  by (simp_all add: eventGroupRows_def eventOnlyRows_def survivalGroupRows_def
      survivalOnlyRows_def timeOnlyRows_def)

theorem heuristic_confidence_witness:
  "snd (deriveMappingHeuristically sampleEnv eventGroupRows) = 4 / 5
   \<and> snd (deriveMappingHeuristically sampleEnv eventOnlyRows) = 3 / 5
   \<and> snd (deriveMappingHeuristically sampleEnv survivalGroupRows) = 7 / 10
   \<and> snd (deriveMappingHeuristically sampleEnv survivalOnlyRows) = 1 / 2
   \<and> snd (deriveMappingHeuristically sampleEnv timeOnlyRows) = 0
   \<and> fst (deriveMappingHeuristically sampleEnv timeOnlyRows) = None"
proof -
  have nf: "\<not> (''time'' \<in> set (collectKeys eventGroupRows)
                \<and> ''status'' \<in> set (collectKeys eventGroupRows)
                \<and> ''group'' \<in> set (collectKeys eventGroupRows))"
      "\<not> (''time'' \<in> set (collectKeys eventOnlyRows)
                \<and> ''status'' \<in> set (collectKeys eventOnlyRows)
                \<and> ''group'' \<in> set (collectKeys eventOnlyRows))"
      "\<not> (''time'' \<in> set (collectKeys survivalGroupRows)
                \<and> ''status'' \<in> set (collectKeys survivalGroupRows)
                \<and> ''group'' \<in> set (collectKeys survivalGroupRows))"
      "\<not> (''time'' \<in> set (collectKeys survivalOnlyRows)
                \<and> ''status'' \<in> set (collectKeys survivalOnlyRows)
                \<and> ''group'' \<in> set (collectKeys survivalOnlyRows))"
      "\<not> (''time'' \<in> set (collectKeys timeOnlyRows)
                \<and> ''status'' \<in> set (collectKeys timeOnlyRows)
                \<and> ''group'' \<in> set (collectKeys timeOnlyRows))"
    by code_simp+
  have tm: "\<exists>k\<in>set (collectKeys eventGroupRows). keyMatches TIME_PATTERNS k"
      "\<exists>k\<in>set (collectKeys eventOnlyRows). keyMatches TIME_PATTERNS k"
      "\<exists>k\<in>set (collectKeys survivalGroupRows). keyMatches TIME_PATTERNS k"
      "\<exists>k\<in>set (collectKeys survivalOnlyRows). keyMatches TIME_PATTERNS k"
      "\<exists>k\<in>set (collectKeys timeOnlyRows). keyMatches TIME_PATTERNS k"
    by code_simp+
  have ev: "\<exists>k\<in>set (collectKeys eventGroupRows). keyMatches EVENT_PATTERNS k"
      "\<exists>k\<in>set (collectKeys eventOnlyRows). keyMatches EVENT_PATTERNS k"
      "\<not> (\<exists>k\<in>set (collectKeys survivalGroupRows). keyMatches EVENT_PATTERNS k)"
      "\<not> (\<exists>k\<in>set (collectKeys survivalOnlyRows). keyMatches EVENT_PATTERNS k)"
      "\<not> (\<exists>k\<in>set (collectKeys timeOnlyRows). keyMatches EVENT_PATTERNS k)"
    by code_simp+
  have sv: "\<exists>k\<in>set (collectKeys survivalGroupRows). keyMatches SURVIVAL_PATTERNS k"
      "\<exists>k\<in>set (collectKeys survivalOnlyRows). keyMatches SURVIVAL_PATTERNS k"
      "\<not> (\<exists>k\<in>set (collectKeys timeOnlyRows). keyMatches SURVIVAL_PATTERNS k)"
    by code_simp+
  have gr: "truthyKey (heuristicGroupKey sampleEnv eventGroupRows)"
      "\<not> truthyKey (heuristicGroupKey sampleEnv eventOnlyRows)"
      "truthyKey (heuristicGroupKey sampleEnv survivalGroupRows)"
      "\<not> truthyKey (heuristicGroupKey sampleEnv survivalOnlyRows)"
    by code_simp+
  show ?thesis
    using heuristic_confidence [OF confidence_premises(1) nf(1) tm(1), of sampleEnv]
      heuristic_confidence [OF confidence_premises(2) nf(2) tm(2), of sampleEnv]
      heuristic_confidence [OF confidence_premises(3) nf(3) tm(3), of sampleEnv]
      heuristic_confidence [OF confidence_premises(4) nf(4) tm(4), of sampleEnv]
      heuristic_confidence [OF confidence_premises(5) nf(5) tm(5), of sampleEnv]
      ev sv gr
    by simp
qed

section \<open>At-risk lookup\<close>




text \<open>The lookup, case by case, on any series. The search starts from the marker
  \<open>-1\<close> and only moves to recorded times above it.\<close>

lemma lookup_empty: "atRiskMap s = [] \<Longrightarrow> getAtRiskAtTime s q = Dash"
  by (simp add: getAtRiskAtTime_def)




section \<open>Mapping resolution\<close>

lemma fetch_failed:
  "rows \<noteq> [] \<Longrightarrow> collaboratorFailed (collaborator (take 25 rows)) \<Longrightarrow>
     fetchLLMMapping collaborator rows = ([take 25 rows], None)"
  by (auto simp: fetchLLMMapping_def collaboratorFailed_def
      split: FetchOutcome.splits option.splits)

lemma fetch_answered:
  "rows \<noteq> [] \<Longrightarrow> collaborator (take 25 rows) = Body (Some payload) \<Longrightarrow>
     mapping payload = Some lm \<Longrightarrow>
     fetchLLMMapping collaborator rows = ([take 25 rows], Some payload)"
  by (simp add: fetchLLMMapping_def)

text \<open>
  Claim C8, amended: in mapping resolution (flag not set), when the heuristic mapping is
  non-null with confidence at least 0.75 it is accepted without calling the collaborator;
  otherwise, when the rows are non-empty, the collaborator is invoked once with the first
  25 rows (all of them when there are fewer), and when the rows are empty no call is made
  and the result is the null mapping with confidence 0; a collaborator result with a
  non-null mapping is accepted and marked as LLM-sourced whatever its confidence (the
  heuristic's confidence stands in when it gives none); on a collaborator failure (network
  error, non-success status, body that is not JSON, null body or null mapping) the
  heuristic mapping is used if it exists, else the result is the null mapping with
  confidence 0. Every outcome of the call yields a state: no failure is raised.
\<close>

theorem resolution_contract:
  "(acceptsHeuristic h \<and> fst h = Some hm \<longrightarrow>
      resolveMapping h rows collaborator False st =
        st\<lparr>columnMapping := Some hm, mappingConfidence := snd h,
           notified := notified st @ [(hm, snd h, False)]\<rparr>)
   \<and> (\<not> acceptsHeuristic h \<and> rows \<noteq> [] \<longrightarrow>
        requests (resolveMapping h rows collaborator False st) = requests st @ [take 25 rows])
   \<and> (\<not> acceptsHeuristic h \<and> rows \<noteq> [] \<and> collaborator (take 25 rows) = Body (Some payload)
        \<and> mapping payload = Some lm \<longrightarrow>
        resolveMapping h rows collaborator False st =
          st\<lparr>columnMapping := Some lm,
             mappingConfidence := (case confidence payload of Some x \<Rightarrow> x | None \<Rightarrow> snd h),
             llmAttempted := True,
             requests := requests st @ [take 25 rows],
             notified := notified st @
               [(lm, case confidence payload of Some x \<Rightarrow> x | None \<Rightarrow> snd h, True)]\<rparr>)
   \<and> (\<not> acceptsHeuristic h \<and> rows \<noteq> [] \<and> collaboratorFailed (collaborator (take 25 rows))
        \<and> fst h = Some hm \<longrightarrow>
        resolveMapping h rows collaborator False st =
          st\<lparr>columnMapping := Some hm, mappingConfidence := snd h,
             requests := requests st @ [take 25 rows],
             notified := notified st @ [(hm, snd h, False)]\<rparr>)
   \<and> (\<not> acceptsHeuristic h \<and> rows \<noteq> [] \<and> collaboratorFailed (collaborator (take 25 rows))
        \<and> fst h = None \<longrightarrow>
        resolveMapping h rows collaborator False st =
          st\<lparr>columnMapping := None, mappingConfidence := 0,
             requests := requests st @ [take 25 rows]\<rparr>)
   \<and> (rows = [] \<longrightarrow>
        resolveMapping (deriveMappingHeuristically J rows) rows collaborator False st =
          st\<lparr>columnMapping := None, mappingConfidence := 0\<rparr>)"
proof (intro conjI impI)
  assume "acceptsHeuristic h \<and> fst h = Some hm"
  then show "resolveMapping h rows collaborator False st =
      st\<lparr>columnMapping := Some hm, mappingConfidence := snd h,
         notified := notified st @ [(hm, snd h, False)]\<rparr>"
    by (simp add: resolveMapping_def useHeuristic_def)
next
  assume "\<not> acceptsHeuristic h \<and> rows \<noteq> []"
  then show "requests (resolveMapping h rows collaborator False st) =
      requests st @ [take 25 rows]"
    by (simp add: resolveMapping_def fetchLLMMapping_def afterFetch_def useHeuristic_def
        Let_def split: option.splits FetchOutcome.splits)
next
  assume "\<not> acceptsHeuristic h \<and> rows \<noteq> [] \<and> collaborator (take 25 rows) = Body (Some payload)
      \<and> mapping payload = Some lm"
  then show "resolveMapping h rows collaborator False st =
      st\<lparr>columnMapping := Some lm,
         mappingConfidence := (case confidence payload of Some x \<Rightarrow> x | None \<Rightarrow> snd h),
         llmAttempted := True,
         requests := requests st @ [take 25 rows],
         notified := notified st @
           [(lm, case confidence payload of Some x \<Rightarrow> x | None \<Rightarrow> snd h, True)]\<rparr>"
    by (simp add: resolveMapping_def fetch_answered afterFetch_def Let_def)
next
  assume "\<not> acceptsHeuristic h \<and> rows \<noteq> [] \<and> collaboratorFailed (collaborator (take 25 rows))
      \<and> fst h = Some hm"
  then show "resolveMapping h rows collaborator False st =
      st\<lparr>columnMapping := Some hm, mappingConfidence := snd h,
         requests := requests st @ [take 25 rows],
         notified := notified st @ [(hm, snd h, False)]\<rparr>"
    by (simp add: resolveMapping_def fetch_failed afterFetch_def useHeuristic_def)
next
  assume "\<not> acceptsHeuristic h \<and> rows \<noteq> [] \<and> collaboratorFailed (collaborator (take 25 rows))
      \<and> fst h = None"
  then show "resolveMapping h rows collaborator False st =
      st\<lparr>columnMapping := None, mappingConfidence := 0,
         requests := requests st @ [take 25 rows]\<rparr>"
    by (simp add: resolveMapping_def fetch_failed afterFetch_def useHeuristic_def)
next
  assume "rows = []"
  then show "resolveMapping (deriveMappingHeuristically J rows) rows collaborator False st =
      st\<lparr>columnMapping := None, mappingConfidence := 0\<rparr>"
    by (simp add: resolveMapping_def deriveMappingHeuristically_def acceptsHeuristic_def
        fetchLLMMapping_def afterFetch_def useHeuristic_def)
qed

lemma heuristic_examples:
  "deriveMappingHeuristically sampleEnv scenarioRows = (Some scenarioMapping, 1)"
  "deriveMappingHeuristically sampleEnv eventOnlyRows = (Some eventOnlyMapping, 3 / 5)"
  "deriveMappingHeuristically sampleEnv timeOnlyRows = (None, 0)"
  by code_simp+

theorem resolution_contract_witness:
  "resolveMapping (deriveMappingHeuristically sampleEnv scenarioRows) scenarioRows
       answeringCollaborator False initialView =
     initialView\<lparr>columnMapping := Some scenarioMapping, mappingConfidence := 1,
                 notified := [(scenarioMapping, 1, False)]\<rparr>
   \<and> resolveMapping (deriveMappingHeuristically sampleEnv eventOnlyRows) eventOnlyRows
       answeringCollaborator False initialView =
     initialView\<lparr>columnMapping := Some scenarioMapping, mappingConfidence := 1 / 10,
                 llmAttempted := True, requests := [eventOnlyRows],
                 notified := [(scenarioMapping, 1 / 10, True)]\<rparr>
   \<and> resolveMapping (deriveMappingHeuristically sampleEnv eventOnlyRows) eventOnlyRows
       failingCollaborator False initialView =
     initialView\<lparr>columnMapping := Some eventOnlyMapping, mappingConfidence := 3 / 5,
                 requests := [eventOnlyRows],
                 notified := [(eventOnlyMapping, 3 / 5, False)]\<rparr>
   \<and> resolveMapping (deriveMappingHeuristically sampleEnv timeOnlyRows) timeOnlyRows
       failingCollaborator False initialView =
     initialView\<lparr>columnMapping := None, mappingConfidence := 0,
                 requests := [timeOnlyRows]\<rparr>
   \<and> resolveMapping (deriveMappingHeuristically sampleEnv []) []
       answeringCollaborator False initialView =
     initialView\<lparr>columnMapping := None, mappingConfidence := 0\<rparr>"
proof -
  have acc: "acceptsHeuristic (Some scenarioMapping, 1)"
    "\<not> acceptsHeuristic (Some eventOnlyMapping, 3 / 5)"
    "\<not> acceptsHeuristic (None, 0)"
    by (simp_all add: acceptsHeuristic_def)
  have ne: "eventOnlyRows \<noteq> []" "timeOnlyRows \<noteq> []"
    and tk: "take 25 eventOnlyRows = eventOnlyRows" "take 25 timeOnlyRows = timeOnlyRows"
    by (simp_all add: eventOnlyRows_def timeOnlyRows_def)
  have fl: "collaboratorFailed (failingCollaborator eventOnlyRows)"
    "collaboratorFailed (failingCollaborator timeOnlyRows)"
    by (simp_all add: collaboratorFailed_def failingCollaborator_def)
  have an: "answeringCollaborator eventOnlyRows =
      Body (Some \<lparr>mapping = Some scenarioMapping, confidence = Some (1 / 10),
                   reasoning = None\<rparr>)"
    by (simp add: answeringCollaborator_def)
  show ?thesis
    using
      resolution_contract [of "(Some scenarioMapping, 1)" scenarioMapping scenarioRows
        answeringCollaborator initialView _ _ sampleEnv]
      resolution_contract [of "(Some eventOnlyMapping, 3 / 5)" eventOnlyMapping eventOnlyRows
        answeringCollaborator initialView
        "\<lparr>mapping = Some scenarioMapping, confidence = Some (1 / 10), reasoning = None\<rparr>"
        scenarioMapping sampleEnv]
      resolution_contract [of "(Some eventOnlyMapping, 3 / 5)" eventOnlyMapping eventOnlyRows
        failingCollaborator initialView _ _ sampleEnv]
      resolution_contract [of "(None, 0)" _ timeOnlyRows
        failingCollaborator initialView _ _ sampleEnv]
      resolution_contract [of _ _ "[]" answeringCollaborator initialView _ _ sampleEnv]
      acc ne tk fl an
    by (simp add: heuristic_examples initialView_def)
qed

text \<open>
  Claim C8, as stated, has the collaborator invoked whenever the heuristic is not
  accepted. For empty rows the heuristic is not accepted, and \<^verbatim>\<open>fetchLLMMapping\<close>
  returns before \<^verbatim>\<open>fetch\<close>: no request is made, even to a collaborator that would
  answer.
\<close>

theorem empty_rows_no_call_counterexample:
  "\<not> acceptsHeuristic (deriveMappingHeuristically sampleEnv [])
   \<and> requests (resolveMapping (deriveMappingHeuristically sampleEnv []) []
                 answeringCollaborator False initialView) = []"
  by code_simp

text \<open>When the flag is set at the time the call returns, the effect writes nothing but
  the request log.\<close>

lemma cancelled_writes_nothing:
  "\<not> acceptsHeuristic h \<Longrightarrow>
     resolveMapping h rows collaborator True st =
       st\<lparr>requests := requests st @ fst (fetchLLMMapping collaborator rows)\<rparr>"
  by (simp add: resolveMapping_def split: prod.splits)

section \<open>Survival series\<close>

lemma set_alist_update: "set (AList.update k v al) \<subseteq> insert (k, v) (set al)"
  by (induction al) auto

lemma bucketSize_nonneg: "0 \<le> bucketSize b"
  by (simp add: bucketSize_def)

lemma bucketAt_nonneg: "0 \<le> bucketAt timeline t"
  by (simp add: bucketAt_def bucketSize_nonneg split: option.splits)

lemma stillToCome_nonneg: "0 \<le> stillToCome timeline ts"
  unfolding stillToCome_def by (induction ts) (simp_all add: bucketAt_nonneg)

subsection \<open>Grouping keeps bucket times distinct and within the parsed times\<close>

lemma addEventRow_times:
  assumes "\<forall>(g, tln)\<in>set grouped. distinct (map fst tln) \<and> (\<forall>t\<in>fst ` set tln. Q t)"
    and "\<forall>t. parseNumber J (getValue row (mtime m)) = Some t \<longrightarrow> Q t"
  shows "\<forall>(g, tln)\<in>set (addEventRow J m row grouped).
           distinct (map fst tln) \<and> (\<forall>t\<in>fst ` set tln. Q t)"
proof (cases "parseNumber J (getValue row (mtime m))")
  case None
  then show ?thesis using assms(1) by (simp add: addEventRow_def)
next
  case (Some t)
  let ?g = "rowGroup J m row"
  let ?tln = "case map_of grouped ?g of None \<Rightarrow> [] | Some existing \<Rightarrow> existing"
  let ?b = "addToBucket (countsAsEvent J m row)
              (case map_of ?tln t of None \<Rightarrow> \<lparr>events = 0, bcensored = 0\<rparr> | Some b \<Rightarrow> b)"
  have old: "distinct (map fst ?tln) \<and> (\<forall>u\<in>fst ` set ?tln. Q u)"
  proof (cases "map_of grouped ?g")
    case None
    then show ?thesis by simp
  next
    case (Some existing)
    then have "(?g, existing) \<in> set grouped" by (rule map_of_SomeD)
    with assms(1) have "distinct (map fst existing) \<and> (\<forall>u\<in>fst ` set existing. Q u)"
      by fastforce
    with Some show ?thesis by simp
  qed
  have new: "distinct (map fst (AList.update t ?b ?tln))
             \<and> (\<forall>u\<in>fst ` set (AList.update t ?b ?tln). Q u)"
    using old assms(2) Some by (simp add: distinct_update dom_update)
  have eq: "addEventRow J m row grouped = AList.update ?g (AList.update t ?b ?tln) grouped"
    using Some by (simp add: addEventRow_def Let_def)
  show ?thesis
    unfolding eq using set_alist_update [of ?g "AList.update t ?b ?tln" grouped] new assms(1)
    by blast
qed

lemma fold_addEventRow_times:
  assumes "\<forall>(g, tln)\<in>set acc. distinct (map fst tln) \<and> (\<forall>t\<in>fst ` set tln. Q t)"
    and "\<forall>row\<in>set rows. \<forall>t. parseNumber J (getValue row (mtime m)) = Some t \<longrightarrow> Q t"
  shows "\<forall>(g, tln)\<in>set (fold (addEventRow J m) rows acc).
           distinct (map fst tln) \<and> (\<forall>t\<in>fst ` set tln. Q t)"
  using assms
proof (induction rows arbitrary: acc)
  case Nil
  then show ?case by simp
next
  case (Cons row rows)
  have "\<forall>(g, tln)\<in>set (addEventRow J m row acc).
          distinct (map fst tln) \<and> (\<forall>t\<in>fst ` set tln. Q t)"
    using Cons.prems by (intro addEventRow_times) auto
  then show ?case using Cons.IH Cons.prems(2) by simp
qed

lemma grouped_times:
  assumes "(g, tln) \<in> set (groupEventRows J m rows)"
    and "\<forall>row\<in>set rows. \<forall>t. parseNumber J (getValue row (mtime m)) = Some t \<longrightarrow> Q t"
  shows "distinct (map fst tln) \<and> (\<forall>t\<in>fst ` set tln. Q t)"
  using fold_addEventRow_times [of "[]" Q rows J m] assms
  by (auto simp: groupEventRows_def)

subsection \<open>The at-risk count covers the buckets still to come\<close>

lemma fold_add_sum: "fold (\<lambda>(t, b) acc. acc + bucketSize b) tln a = a + sum_list (map (bucketSize \<circ> snd) tln)"
  by (induction tln arbitrary: a) (auto simp: case_prod_beta)

lemma totalSubjects_sum: "totalSubjects tln = sum_list (map (bucketSize \<circ> snd) tln)"
  by (simp add: totalSubjects_def fold_add_sum)

lemma bucketAt_keys:
  assumes "distinct (map fst tln)"
  shows "sum_list (map (bucketAt tln) (map fst tln)) = sum_list (map (bucketSize \<circ> snd) tln)"
proof -
  have "map (bucketAt tln) (map fst tln) = map (bucketSize \<circ> snd) tln"
    using assms by (auto simp: bucketAt_def)
  then show ?thesis by (rule arg_cong)
qed

lemma stillToCome_all:
  assumes "distinct (map fst tln)"
  shows "stillToCome tln (orderedTimes tln) = totalSubjects tln"
proof -
  have "sum_list (map (bucketAt tln) (sort (map fst tln))) = sum (bucketAt tln) (set (sort (map fst tln)))"
    using assms by (intro sum_list_distinct_conv_sum_set) simp
  also have "\<dots> = sum (bucketAt tln) (set (map fst tln))" by simp
  also have "\<dots> = sum_list (map (bucketAt tln) (map fst tln))"
    using assms by (intro sum_list_distinct_conv_sum_set [symmetric])
  also have "\<dots> = totalSubjects tln"
    using assms by (simp only: bucketAt_keys totalSubjects_sum)
  finally show ?thesis
    by (simp only: stillToCome_def orderedTimes_def)
qed

subsection \<open>The per-group loop\<close>

lemma loopStep_steps_grow:
  "accSteps st \<noteq> [] \<Longrightarrow>
     accSteps (loopStep timeline t st) \<noteq> []
     \<and> hd (accSteps (loopStep timeline t st)) = hd (accSteps st)"
  by (simp add: loopStep_def Let_def split: option.splits)

lemma fold_steps_grow:
  "accSteps st \<noteq> [] \<Longrightarrow>
     accSteps (fold (loopStep timeline) ts st) \<noteq> []
     \<and> hd (accSteps (fold (loopStep timeline) ts st)) = hd (accSteps st)"
proof (induction ts arbitrary: st)
  case Nil
  then show ?case by simp
next
  case (Cons t ts)
  from loopStep_steps_grow [OF Cons.prems, of timeline t] Cons.IH [of "loopStep timeline t st"]
  show ?case by simp
qed

lemma runTimeline_first:
  "accSteps (runTimeline timeline) \<noteq> []
   \<and> time (hd (accSteps (runTimeline timeline))) = 0
   \<and> survival (hd (accSteps (runTimeline timeline))) = 100"
  using fold_steps_grow [of "initLoop timeline" timeline "orderedTimes timeline"]
  by (simp add: runTimeline_def initLoop_def Let_def)

lemma factor_bounds:
  fixes a e :: int and c :: rat
  assumes "0 < a" "0 \<le> e" "e \<le> a" "0 \<le> c"
  shows "0 \<le> c * (of_int (a - e) / of_int a) \<and> c * (of_int (a - e) / of_int a) \<le> c"
proof -
  define f :: rat where "f = of_int (a - e) / of_int a"
  have "0 \<le> f" using assms by (simp add: f_def)
  moreover have "f \<le> 1" using assms by (simp add: f_def)
  ultimately have "0 \<le> c * f \<and> c * f \<le> c"
    using assms(4) by (simp add: mult_left_le)
  then show ?thesis by (simp only: f_def)
qed

lemma loopStep_survival:
  assumes "sorted (rev (map survival (accSteps st)))"
    and "\<forall>s\<in>set (accSteps st). curSurvival st \<le> survival s"
    and "0 \<le> curSurvival st"
    and "stillToCome timeline (t # ts) \<le> curAtRisk st"
  shows "sorted (rev (map survival (accSteps (loopStep timeline t st))))
         \<and> (\<forall>s\<in>set (accSteps (loopStep timeline t st)).
               curSurvival (loopStep timeline t st) \<le> survival s)
         \<and> 0 \<le> curSurvival (loopStep timeline t st)
         \<and> stillToCome timeline ts \<le> curAtRisk (loopStep timeline t st)"
proof (cases "curAtRisk st \<le> 0")
  case True
  have "stillToCome timeline ts \<le> stillToCome timeline (t # ts)"
    using bucketAt_nonneg [of timeline t] by (simp add: stillToCome_def)
  with True assms show ?thesis by (simp add: loopStep_def Let_def)
next
  case pos: False
  show ?thesis
  proof (cases "map_of timeline t")
    case None
    then have "stillToCome timeline ts = stillToCome timeline (t # ts)"
      by (simp add: stillToCome_def bucketAt_def)
    with None pos assms show ?thesis by (simp add: loopStep_def Let_def)
  next
    case (Some b)
    let ?surv = "if events b > 0
                 then curSurvival st * (of_int (curAtRisk st - int (events b)) / of_int (curAtRisk st))
                 else curSurvival st"
    have split: "stillToCome timeline (t # ts) = bucketSize b + stillToCome timeline ts"
      using Some by (simp add: stillToCome_def bucketAt_def)
    have "int (events b) \<le> bucketSize b" by (simp add: bucketSize_def)
    also have "\<dots> \<le> stillToCome timeline (t # ts)"
      using stillToCome_nonneg [of timeline ts] by (simp add: split)
    finally have le: "int (events b) \<le> curAtRisk st" using assms(4) by simp
    have fb: "0 \<le> ?surv \<and> ?surv \<le> curSurvival st"
      using factor_bounds [of "curAtRisk st" "int (events b)" "curSurvival st"] pos le assms(3)
      by auto
    have st': "loopStep timeline t st =
        st\<lparr>accAtRiskMap := AList.update t (curAtRisk st) (accAtRiskMap st),
           curSurvival := ?surv,
           accSteps := accSteps st @ [\<lparr>time = t, survival = ?surv, atRisk = Some (curAtRisk st)\<rparr>],
           accCensored := accCensored st @ replicate (bcensored b) \<lparr>ctime = t, csurvival = ?surv\<rparr>,
           curAtRisk := curAtRisk st - bucketSize b\<rparr>"
      using pos Some by (simp add: loopStep_def Let_def)
    have old: "\<forall>s\<in>set (accSteps st). ?surv \<le> survival s"
      using assms(2) fb by (meson order_trans)
    have "sorted (rev (map survival (accSteps st @
            [\<lparr>time = t, survival = ?surv, atRisk = Some (curAtRisk st)\<rparr>])))"
      using assms(1) old by (simp del: if_split)
    moreover have "stillToCome timeline ts \<le> curAtRisk st - bucketSize b"
      using assms(4) split by simp
    ultimately show ?thesis
      unfolding st' using old fb by (simp del: if_split)
  qed
qed

lemma fold_survival:
  assumes "sorted (rev (map survival (accSteps st)))"
    and "\<forall>s\<in>set (accSteps st). curSurvival st \<le> survival s"
    and "0 \<le> curSurvival st"
    and "stillToCome timeline ts \<le> curAtRisk st"
  shows "sorted (rev (map survival (accSteps (fold (loopStep timeline) ts st))))"
  using assms
proof (induction ts arbitrary: st)
  case Nil
  then show ?case by simp
next
  case (Cons t ts)
  from loopStep_survival [OF Cons.prems] Cons.IH [of "loopStep timeline t st"]
  show ?case by simp
qed

lemma runTimeline_survival:
  assumes "distinct (map fst timeline)"
  shows "sorted (rev (map survival (accSteps (runTimeline timeline))))"
  unfolding runTimeline_def
  by (rule fold_survival) (simp_all add: initLoop_def Let_def stillToCome_all [OF assms])

lemma loopStep_times:
  assumes "sorted (map time (accSteps st))"
    and "\<forall>s\<in>set (accSteps st). \<forall>u\<in>set (t # ts). time s \<le> u"
    and "sorted (t # ts)"
  shows "sorted (map time (accSteps (loopStep timeline t st)))
         \<and> (\<forall>s\<in>set (accSteps (loopStep timeline t st)). \<forall>u\<in>set ts. time s \<le> u)"
  using assms by (auto simp: loopStep_def Let_def sorted_append split: option.splits)

lemma fold_times:
  assumes "sorted (map time (accSteps st))"
    and "\<forall>s\<in>set (accSteps st). \<forall>u\<in>set ts. time s \<le> u"
    and "sorted ts"
  shows "sorted (map time (accSteps (fold (loopStep timeline) ts st)))"
  using assms
proof (induction ts arbitrary: st)
  case Nil
  then show ?case by simp
next
  case (Cons t ts)
  from loopStep_times [OF Cons.prems, of timeline] Cons.prems(3)
    Cons.IH [of "loopStep timeline t st"]
  show ?case by simp
qed

lemma runTimeline_times:
  assumes "\<forall>t\<in>fst ` set timeline. 0 \<le> t"
  shows "sorted (map time (accSteps (runTimeline timeline)))"
  unfolding runTimeline_def
  using assms by (intro fold_times) (auto simp: initLoop_def Let_def orderedTimes_def)

subsection \<open>Survival-percentage construction\<close>

lemma addSurvivalRow_times:
  assumes "\<forall>(g, ser)\<in>set grouped. \<forall>s\<in>set (steps ser). Q (time s)"
    and "Q 0"
    and "\<forall>t. parseNumber J (getValue row (mtime m)) = Some t \<longrightarrow> Q t"
  shows "\<forall>(g, ser)\<in>set (addSurvivalRow J m key row grouped). \<forall>s\<in>set (steps ser). Q (time s)"
proof (cases "parseNumber J (getValue row (mtime m))")
  case None
  then show ?thesis using assms(1) by (simp add: addSurvivalRow_def)
next
  case t: (Some t)
  show ?thesis
  proof (cases "parseNumber J (getValue row key)")
    case None
    then show ?thesis using assms(1) t by (simp add: addSurvivalRow_def)
  next
    case (Some sv)
    let ?g = "survivalRowGroup J m key row"
    let ?ser = "case map_of grouped ?g of
                  None \<Rightarrow> \<lparr>group = ?g, steps = [seedStep], censored = [], atRiskMap = []\<rparr>
                | Some existing \<Rightarrow> existing"
    let ?pushed = "?ser\<lparr>steps := steps ?ser @
                     [\<lparr>time = t, survival = ensurePercent sv, atRisk = None\<rparr>]\<rparr>"
    let ?new = "if survivalRowCensored m row
                then ?pushed\<lparr>censored := censored ?pushed @
                               [\<lparr>ctime = t, csurvival = ensurePercent sv\<rparr>]\<rparr>
                else ?pushed"
    have old: "\<forall>s\<in>set (steps ?ser). Q (time s)"
    proof (cases "map_of grouped ?g")
      case None
      then show ?thesis using assms(2) by (simp add: seedStep_def)
    next
      case (Some existing)
      then have "(?g, existing) \<in> set grouped" by (rule map_of_SomeD)
      with assms(1) have "\<forall>s\<in>set (steps existing). Q (time s)" by fastforce
      with Some show ?thesis by simp
    qed
    have "Q t" using assms(3) t by simp
    with old have new: "\<forall>s\<in>set (steps ?new). Q (time s)" by simp
    have eq: "addSurvivalRow J m key row grouped = AList.update ?g ?new grouped"
      using t Some by (simp add: addSurvivalRow_def Let_def)
    show ?thesis
      unfolding eq using set_alist_update [of ?g ?new grouped] new assms(1) by blast
  qed
qed

lemma fold_addSurvivalRow_times:
  assumes "\<forall>(g, ser)\<in>set acc. \<forall>s\<in>set (steps ser). Q (time s)"
    and "Q 0"
    and "\<forall>row\<in>set rows. \<forall>t. parseNumber J (getValue row (mtime m)) = Some t \<longrightarrow> Q t"
  shows "\<forall>(g, ser)\<in>set (fold (addSurvivalRow J m key) rows acc).
           \<forall>s\<in>set (steps ser). Q (time s)"
  using assms
proof (induction rows arbitrary: acc)
  case Nil
  then show ?case by simp
next
  case (Cons row rows)
  have "\<forall>(g, ser)\<in>set (addSurvivalRow J m key row acc). \<forall>s\<in>set (steps ser). Q (time s)"
    using Cons.prems by (intro addSurvivalRow_times) auto
  then show ?case using Cons.IH Cons.prems(2,3) by simp
qed

lemma finish_first:
  "steps (finishSurvivalSeries ser) \<noteq> []
   \<and> time (hd (steps (finishSurvivalSeries ser))) = 0
   \<and> survival (hd (steps (finishSurvivalSeries ser))) = 100"
  by (simp add: finishSurvivalSeries_def seedStep_def split: list.splits)

lemma finish_times:
  assumes "\<forall>s\<in>set (steps ser). 0 \<le> time s"
  shows "sorted (map time (steps (finishSurvivalSeries ser)))"
proof (cases "sort_key time (steps ser)")
  case Nil
  then show ?thesis by (simp add: finishSurvivalSeries_def seedStep_def)
next
  case (Cons s rest)
  have srt: "sorted (map time (s # rest))"
    using sorted_sort_key [of time "steps ser"] Cons by simp
  have "set (s # rest) = set (steps ser)"
    using set_sort [of time "steps ser"] Cons by simp
  with assms have nn: "\<forall>x\<in>set (s # rest). 0 \<le> time x" by simp
  show ?thesis
    using Cons srt nn by (auto simp: finishSurvivalSeries_def seedStep_def)
qed

subsection \<open>Shape of every series\<close>

lemma event_series_shape:
  assumes "s \<in> set (buildEventSeries J rows m)"
  shows "steps s \<noteq> [] \<and> time (hd (steps s)) = 0 \<and> survival (hd (steps s)) = 100
         \<and> sorted (rev (map survival (steps s)))
         \<and> ((\<forall>row\<in>set rows. \<forall>t. parseNumber J (getValue row (mtime m)) = Some t \<longrightarrow> 0 \<le> t)
              \<longrightarrow> sorted (map time (steps s)))"
proof -
  from assms obtain g tln where in_g: "(g, tln) \<in> set (groupEventRows J m rows)"
    and s: "s = seriesOfGroup (g, tln)"
    by (auto simp: buildEventSeries_def)
  have st: "steps s = accSteps (runTimeline tln)"
    by (simp add: s seriesOfGroup_def Let_def)
  have d: "distinct (map fst tln)"
    using grouped_times [OF in_g, of "\<lambda>t. True"] by simp
  have tm: "sorted (map time (steps s))"
    if "\<forall>row\<in>set rows. \<forall>t. parseNumber J (getValue row (mtime m)) = Some t \<longrightarrow> 0 \<le> t"
    using grouped_times [OF in_g that] runTimeline_times [of tln] by (simp add: st)
  show ?thesis
    using runTimeline_first [of tln] runTimeline_survival [OF d] tm by (simp add: st)
qed

lemma survival_series_shape:
  assumes "s \<in> set (buildSurvivalSeries J rows m)"
  shows "steps s \<noteq> [] \<and> time (hd (steps s)) = 0 \<and> survival (hd (steps s)) = 100
         \<and> ((\<forall>row\<in>set rows. \<forall>t. parseNumber J (getValue row (mtime m)) = Some t \<longrightarrow> 0 \<le> t)
              \<longrightarrow> sorted (map time (steps s)))"
proof -
  obtain key where k: "msurvival m = Some key" and kne: "key \<noteq> []"
    using assms by (cases "msurvival m") (auto simp: buildSurvivalSeries_def split: if_splits)
  with assms obtain g ser where in_g: "(g, ser) \<in> set (fold (addSurvivalRow J m key) rows [])"
    and s: "s = finishSurvivalSeries ser"
    by (auto simp: buildSurvivalSeries_def)
  have tm: "sorted (map time (steps s))"
    if h: "\<forall>row\<in>set rows. \<forall>t. parseNumber J (getValue row (mtime m)) = Some t \<longrightarrow> 0 \<le> t"
  proof -
    have "\<forall>(g, ser)\<in>set (fold (addSurvivalRow J m key) rows []).
            \<forall>x\<in>set (steps ser). 0 \<le> time x"
      using h by (intro fold_addSurvivalRow_times) auto
    with in_g have "\<forall>x\<in>set (steps ser). 0 \<le> time x" by fastforce
    then show ?thesis unfolding s by (rule finish_times)
  qed
  show ?thesis using finish_first [of ser] tm by (simp add: s)
qed

text \<open>
  Claim C2, amended: for every input rows and every mapping, each series produced by
  \<^verbatim>\<open>buildSeries\<close> has a first step with time 0 and survival 100; its step sequence is
  non-decreasing in time when no row has a negative parsed time; and its survival values
  are non-increasing along the step sequence when the series comes from the event-based
  construction (the mapping has an event column, or no survival column).
\<close>

theorem series_shape:
  assumes "s \<in> set (buildSeries J rows m)"
  shows "steps s \<noteq> [] \<and> time (hd (steps s)) = 0 \<and> survival (hd (steps s)) = 100
         \<and> ((\<forall>row\<in>set rows. \<forall>t. parseNumber J (getValue row (mtime m)) = Some t \<longrightarrow> 0 \<le> t)
              \<longrightarrow> sorted (map time (steps s)))
         \<and> (usesEventConstruction m \<longrightarrow> sorted (rev (map survival (steps s))))"
proof (cases "usesEventConstruction m")
  case True
  with assms have "s \<in> set (buildEventSeries J rows m)"
    by (auto simp: buildSeries_def usesEventConstruction_def split: if_splits)
  from event_series_shape [OF this] show ?thesis by simp
next
  case False
  with assms have "s \<in> set (buildSurvivalSeries J rows m)"
    by (auto simp: buildSeries_def usesEventConstruction_def split: if_splits)
  from survival_series_shape [OF this] False show ?thesis by simp
qed

text \<open>
  Claim C2, as stated, puts no restriction on rows or mapping. With precomputed
  survival percentages the values are copied from the rows: the two rows
  \<open>(month 1, pct 50)\<close>, \<open>(month 2, pct 80)\<close> give the steps \<open>(0, 100)\<close>, \<open>(1, 50)\<close>,
  \<open>(2, 80)\<close>, whose survival rises from 50 to 80. With a negative time the steps are
  out of order: two events at times \<open>-5\<close> and \<open>-3\<close> give step times \<open>0, -5, -3\<close>.
\<close>

theorem series_shape_counterexample:
  "map time (concat (map steps (buildSeries sampleEnv risingRows risingMapping))) = [0, 1, 2]
   \<and> map survival (concat (map steps (buildSeries sampleEnv risingRows risingMapping)))
       = [100, 50, 80]
   \<and> \<not> sorted (rev (map survival
          (concat (map steps (buildSeries sampleEnv risingRows risingMapping)))))
   \<and> map time (concat (map steps (buildSeries sampleEnv negativeRows scenarioMapping)))
       = [0, - 5, - 3]
   \<and> \<not> sorted (map time
          (concat (map steps (buildSeries sampleEnv negativeRows scenarioMapping))))"
  by code_simp

theorem series_shape_witness:
  "scenarioSeries \<in> set (buildSeries sampleEnv scenarioRows scenarioMapping)
   \<and> usesEventConstruction scenarioMapping
   \<and> steps scenarioSeries \<noteq> []
   \<and> time (hd (steps scenarioSeries)) = 0 \<and> survival (hd (steps scenarioSeries)) = 100
   \<and> sorted (map time (steps scenarioSeries))
   \<and> sorted (rev (map survival (steps scenarioSeries)))"
proof -
  have mem: "scenarioSeries \<in> set (buildSeries sampleEnv scenarioRows scenarioMapping)"
    by code_simp
  have p: "map (\<lambda>row. parseNumber sampleEnv (getValue row (mtime scenarioMapping))) scenarioRows
             = [Some 0, Some 5, Some 5, Some 10]"
    by code_simp
  have nn: "\<forall>row\<in>set scenarioRows.
              \<forall>t. parseNumber sampleEnv (getValue row (mtime scenarioMapping)) = Some t \<longrightarrow> 0 \<le> t"
  proof
    fix row assume "row \<in> set scenarioRows"
    then have "parseNumber sampleEnv (getValue row (mtime scenarioMapping))
                 \<in> set (map (\<lambda>row. parseNumber sampleEnv (getValue row (mtime scenarioMapping)))
                          scenarioRows)"
      by simp
    then show "\<forall>t. parseNumber sampleEnv (getValue row (mtime scenarioMapping)) = Some t \<longrightarrow> 0 \<le> t"
      unfolding p by auto
  qed
  have ev: "usesEventConstruction scenarioMapping"
    by (simp add: usesEventConstruction_def scenarioMapping_def truthyKey_def)
  show ?thesis
    using series_shape [OF mem] mem nn ev by simp
qed

subsection \<open>Censoring-only buckets\<close>

lemma loopStep_last_survival:
  assumes "accSteps st \<noteq> [] \<and> survival (last (accSteps st)) = curSurvival st"
  shows "accSteps (loopStep timeline t st) \<noteq> []
         \<and> survival (last (accSteps (loopStep timeline t st))) = curSurvival (loopStep timeline t st)"
  using assms by (simp add: loopStep_def Let_def split: option.splits)

lemma fold_last_survival:
  "accSteps st \<noteq> [] \<and> survival (last (accSteps st)) = curSurvival st \<Longrightarrow>
     accSteps (fold (loopStep timeline) ts st) \<noteq> []
     \<and> survival (last (accSteps (fold (loopStep timeline) ts st))) =
         curSurvival (fold (loopStep timeline) ts st)"
proof (induction ts arbitrary: st)
  case Nil
  then show ?case by simp
next
  case (Cons t ts)
  from Cons.IH [OF loopStep_last_survival [OF Cons.prems]] show ?case by simp
qed

lemma initLoop_last_survival:
  "accSteps (initLoop timeline) \<noteq> []
   \<and> survival (last (accSteps (initLoop timeline))) = curSurvival (initLoop timeline)"
  by (simp add: initLoop_def Let_def)

lemma loopStep_appends:
  "(\<exists>ext. accSteps (loopStep timeline t st) = accSteps st @ ext)
   \<and> (\<exists>ext. accCensored (loopStep timeline t st) = accCensored st @ ext)"
  by (simp add: loopStep_def Let_def split: option.splits)

lemma fold_appends:
  "(\<exists>ext. accSteps (fold (loopStep timeline) ts st) = accSteps st @ ext)
   \<and> (\<exists>ext. accCensored (fold (loopStep timeline) ts st) = accCensored st @ ext)"
proof (induction ts arbitrary: st)
  case Nil
  then show ?case by simp
next
  case (Cons t ts)
  from loopStep_appends [of timeline t st] Cons.IH [of "loopStep timeline t st"]
  show ?case by (metis append.assoc fold_simps(2))
qed

lemma loopStep_map_other:
  "u \<noteq> t \<Longrightarrow> map_of (accAtRiskMap (loopStep timeline t st)) u = map_of (accAtRiskMap st) u"
  by (simp add: loopStep_def Let_def update_conv' split: option.splits)

lemma loopStep_map_here:
  "map_of (accAtRiskMap (loopStep timeline t st)) t = Some (curAtRisk st)"
  by (simp add: loopStep_def Let_def update_conv' split: option.splits)

lemma fold_map_other:
  "u \<notin> set ts \<Longrightarrow>
     map_of (accAtRiskMap (fold (loopStep timeline) ts st)) u = map_of (accAtRiskMap st) u"
  by (induction ts arbitrary: st) (simp_all add: loopStep_map_other)

lemma runTimeline_split:
  assumes "orderedTimes timeline = pre @ t # post"
    and "st = fold (loopStep timeline) pre (initLoop timeline)"
  shows "runTimeline timeline = fold (loopStep timeline) post (loopStep timeline t st)"
  using assms by (simp add: runTimeline_def)

lemma event_dispatch:
  "mtime m \<noteq> [] \<Longrightarrow> usesEventConstruction m \<Longrightarrow>
     buildSeries J rows m = buildEventSeries J rows m"
  by (auto simp: buildSeries_def usesEventConstruction_def)

text \<open>
  Claim C5: in event-based construction, for every time bucket of a group with no event
  and at least one censored subject, reached with a positive at-risk count, the series
  that \<^verbatim>\<open>buildSeries\<close> returns for the group has, right after the steps emitted for
  the earlier times, a step at that time with the survival value of the preceding step
  (censoring alone never lowers survival); its censored points continue with one point
  per censored subject at that survival height; and the running at-risk count is
  decremented by the censored count before the next time point, which is what the
  at-risk map of the series records there. The state \<open>st\<close> is the loop state after the
  earlier times \<open>pre\<close> of the group's ordered times.
\<close>

theorem censoring_keeps_survival_in_series:
  assumes "mtime m \<noteq> []" and "usesEventConstruction m"
    and "(g, timeline) \<in> set (groupEventRows J m rows)"
    and "orderedTimes timeline = pre @ t # post"
    and "st = fold (loopStep timeline) pre (initLoop timeline)"
    and "map_of timeline t = Some b"
    and "events b = 0" and "0 < bcensored b"
    and "0 < curAtRisk st"
  shows "seriesOfGroup (g, timeline) \<in> set (buildSeries J rows m)
         \<and> (\<exists>later. steps (seriesOfGroup (g, timeline)) =
               accSteps st @ \<lparr>time = t, survival = survival (last (accSteps st)),
                               atRisk = Some (curAtRisk st)\<rparr> # later)
         \<and> (\<exists>later. censored (seriesOfGroup (g, timeline)) =
               accCensored st @ replicate (bcensored b)
                 \<lparr>ctime = t, csurvival = survival (last (accSteps st))\<rparr> @ later)
         \<and> runTimeline timeline = fold (loopStep timeline) post (loopStep timeline t st)
         \<and> accSteps (loopStep timeline t st) =
             accSteps st @ [\<lparr>time = t, survival = survival (last (accSteps st)),
                              atRisk = Some (curAtRisk st)\<rparr>]
         \<and> accCensored (loopStep timeline t st) =
             accCensored st @ replicate (bcensored b)
               \<lparr>ctime = t, csurvival = survival (last (accSteps st))\<rparr>
         \<and> curSurvival (loopStep timeline t st) = survival (last (accSteps st))
         \<and> curAtRisk (loopStep timeline t st) = curAtRisk st - int (bcensored b)
         \<and> (\<forall>next rest. post = next # rest \<longrightarrow>
               map_of (atRiskMap (seriesOfGroup (g, timeline))) next =
                 Some (curAtRisk st - int (bcensored b)))"
proof -
  let ?st' = "loopStep timeline t st"
  have mem: "seriesOfGroup (g, timeline) \<in> set (buildSeries J rows m)"
    using assms(1-3) by (simp add: event_dispatch buildEventSeries_def)
  have run: "runTimeline timeline = fold (loopStep timeline) post ?st'"
    using assms(4,5) by (rule runTimeline_split)
  have last: "survival (last (accSteps st)) = curSurvival st"
    using fold_last_survival [OF initLoop_last_survival, of timeline pre] assms(5) by simp
  have one: "accSteps ?st' =
               accSteps st @ [\<lparr>time = t, survival = survival (last (accSteps st)),
                                atRisk = Some (curAtRisk st)\<rparr>]
             \<and> accCensored ?st' =
               accCensored st @ replicate (bcensored b)
                 \<lparr>ctime = t, csurvival = survival (last (accSteps st))\<rparr>
             \<and> curSurvival ?st' = survival (last (accSteps st))
             \<and> curAtRisk ?st' = curAtRisk st - int (bcensored b)"
    using last assms(6-9) by (simp add: loopStep_def Let_def bucketSize_def)
  from fold_appends [of timeline post ?st'] obtain ext1 ext2
    where e1: "accSteps (runTimeline timeline) = accSteps ?st' @ ext1"
      and e2: "accCensored (runTimeline timeline) = accCensored ?st' @ ext2"
    unfolding run by blast
  have s1: "\<exists>later. steps (seriesOfGroup (g, timeline)) =
               accSteps st @ \<lparr>time = t, survival = survival (last (accSteps st)),
                               atRisk = Some (curAtRisk st)\<rparr> # later"
    using e1 one by (simp add: seriesOfGroup_def Let_def)
  have s2: "\<exists>later. censored (seriesOfGroup (g, timeline)) =
               accCensored st @ replicate (bcensored b)
                 \<lparr>ctime = t, csurvival = survival (last (accSteps st))\<rparr> @ later"
    using e2 one by (simp add: seriesOfGroup_def Let_def)
  have d: "distinct (orderedTimes timeline)"
    using grouped_times [OF assms(3), of "\<lambda>t. True"] by (simp add: orderedTimes_def)
  have nx: "map_of (atRiskMap (seriesOfGroup (g, timeline))) next =
              Some (curAtRisk st - int (bcensored b))"
    if p: "post = next # rest" for "next" rest
  proof -
    have "next \<notin> set rest" using d assms(4) p by simp
    then have "map_of (accAtRiskMap (fold (loopStep timeline) rest (loopStep timeline next ?st'))) next
                 = Some (curAtRisk ?st')"
      by (simp add: fold_map_other loopStep_map_here)
    then show ?thesis
      using one by (simp add: seriesOfGroup_def Let_def run p)
  qed
  from mem s1 s2 run one nx show ?thesis by blast
qed

theorem censoring_keeps_survival_in_series_witness:
  "seriesOfGroup (''A'', censoringTimeline)
       \<in> set (buildSeries sampleEnv censoringRows scenarioMapping)
   \<and> runTimeline censoringTimeline =
       fold (loopStep censoringTimeline) [6]
         (loopStep censoringTimeline 4 (loopStep censoringTimeline 2 (initLoop censoringTimeline)))
   \<and> steps (seriesOfGroup (''A'', censoringTimeline)) =
       [\<lparr>time = 0, survival = 100, atRisk = Some 4\<rparr>,
        \<lparr>time = 2, survival = 75, atRisk = Some 4\<rparr>,
        \<lparr>time = 4, survival = 75, atRisk = Some 3\<rparr>,
        \<lparr>time = 6, survival = 0, atRisk = Some 1\<rparr>]
   \<and> censored (seriesOfGroup (''A'', censoringTimeline)) =
       [\<lparr>ctime = 4, csurvival = 75\<rparr>, \<lparr>ctime = 4, csurvival = 75\<rparr>]
   \<and> curAtRisk (loopStep censoringTimeline 4
        (loopStep censoringTimeline 2 (initLoop censoringTimeline))) = 1
   \<and> map_of (atRiskMap (seriesOfGroup (''A'', censoringTimeline))) 6 = Some 1"
proof -
  let ?st = "loopStep censoringTimeline 2 (initLoop censoringTimeline)"
  have tm: "mtime scenarioMapping \<noteq> []" and ev: "usesEventConstruction scenarioMapping"
    by (simp_all add: scenarioMapping_def usesEventConstruction_def truthyKey_def)
  have g: "(''A'', censoringTimeline) \<in> set (groupEventRows sampleEnv scenarioMapping censoringRows)"
    by code_simp
  have o: "orderedTimes censoringTimeline = [2] @ 4 # [6]" by code_simp
  have f: "?st = fold (loopStep censoringTimeline) [2] (initLoop censoringTimeline)" by simp
  have b: "map_of censoringTimeline 4 = Some \<lparr>events = 0, bcensored = 2\<rparr>"
    by (simp add: censoringTimeline_def)
  have st: "?st = \<lparr>curAtRisk = 3, curSurvival = 75,
       accSteps = [\<lparr>time = 0, survival = 100, atRisk = Some 4\<rparr>,
                   \<lparr>time = 2, survival = 75, atRisk = Some 4\<rparr>],
       accCensored = [], accAtRiskMap = [(0, 4), (2, 4)]\<rparr>"
    by code_simp
  have r: "0 < curAtRisk ?st" by (simp add: st)
  have out: "steps (seriesOfGroup (''A'', censoringTimeline)) =
       [\<lparr>time = 0, survival = 100, atRisk = Some 4\<rparr>,
        \<lparr>time = 2, survival = 75, atRisk = Some 4\<rparr>,
        \<lparr>time = 4, survival = 75, atRisk = Some 3\<rparr>,
        \<lparr>time = 6, survival = 0, atRisk = Some 1\<rparr>]"
    "censored (seriesOfGroup (''A'', censoringTimeline)) =
       [\<lparr>ctime = 4, csurvival = 75\<rparr>, \<lparr>ctime = 4, csurvival = 75\<rparr>]"
    by code_simp+
  show ?thesis
    using censoring_keeps_survival_in_series [OF tm ev g o f b _ _ r] out
    by (simp add: st)
qed

subsection \<open>Time-only mappings\<close>

lemma update_nonempty: "AList.update k v al \<noteq> []"
  by (cases al) auto

lemma sum_update:
  "sum_list (map (w \<circ> snd) (AList.update k v al))
     + (case map_of al k of None \<Rightarrow> 0 | Some old \<Rightarrow> w old)
   = sum_list (map (w \<circ> snd) al) + (w v :: nat)"
  by (induction al) auto

lemma timelineEvents_update:
  "timelineEvents
     (AList.update t
        (addToBucket e (case map_of timeline t of
                          None \<Rightarrow> \<lparr>events = 0, bcensored = 0\<rparr> | Some b \<Rightarrow> b))
        timeline)
   = timelineEvents timeline + (if e then 1 else 0)"
  using sum_update [of events t
      "addToBucket e (case map_of timeline t of
                        None \<Rightarrow> \<lparr>events = 0, bcensored = 0\<rparr> | Some b \<Rightarrow> b)" timeline]
  by (auto simp: timelineEvents_def addToBucket_def split: option.splits)

lemma eventCount_update:
  "eventCount (AList.update g tl' grouped)
     + (case map_of grouped g of None \<Rightarrow> 0 | Some old \<Rightarrow> timelineEvents old)
   = eventCount grouped + timelineEvents tl'"
  unfolding eventCount_def by (rule sum_update)

lemma eventCount_addEventRow:
  "eventCount (addEventRow J m row grouped) =
     eventCount grouped + (if parseable J m row \<and> countsAsEvent J m row then 1 else 0)"
proof (cases "parseNumber J (getValue row (mtime m))")
  case None
  then show ?thesis by (simp add: addEventRow_def parseable_def)
next
  case (Some t)
  let ?g = "rowGroup J m row"
  let ?tl = "case map_of grouped ?g of None \<Rightarrow> [] | Some existing \<Rightarrow> existing"
  let ?tl' = "AList.update t
        (addToBucket (countsAsEvent J m row)
           (case map_of ?tl t of None \<Rightarrow> \<lparr>events = 0, bcensored = 0\<rparr> | Some b \<Rightarrow> b)) ?tl"
  have a: "addEventRow J m row grouped = AList.update ?g ?tl' grouped"
    using Some by (simp add: addEventRow_def Let_def)
  have b: "timelineEvents ?tl' = timelineEvents ?tl + (if countsAsEvent J m row then 1 else 0)"
    by (rule timelineEvents_update)
  have c: "(case map_of grouped ?g of None \<Rightarrow> 0 | Some old \<Rightarrow> timelineEvents old)
             = timelineEvents ?tl"
    by (simp add: timelineEvents_def split: option.splits)
  from eventCount_update [of ?g ?tl' grouped] b c a Some show ?thesis
    by (simp add: parseable_def)
qed

lemma eventCount_fold:
  "eventCount (fold (addEventRow J m) rows acc) =
     eventCount acc + length (filter (\<lambda>row. parseable J m row \<and> countsAsEvent J m row) rows)"
  by (induction rows arbitrary: acc) (simp_all add: eventCount_addEventRow)

lemma addEventRow_nonempty:
  "parseable J m row \<or> grouped \<noteq> [] \<Longrightarrow> addEventRow J m row grouped \<noteq> []"
  by (auto simp: addEventRow_def parseable_def Let_def update_nonempty split: option.splits)

lemma fold_addEventRow_nonempty:
  "(\<exists>row\<in>set rows. parseable J m row) \<or> acc \<noteq> [] \<Longrightarrow>
     fold (addEventRow J m) rows acc \<noteq> []"
proof (induction rows arbitrary: acc)
  case Nil
  then show ?case by simp
next
  case (Cons row rows)
  show ?case
  proof (cases "parseable J m row \<or> acc \<noteq> []")
    case True
    then have "addEventRow J m row acc \<noteq> []" by (rule addEventRow_nonempty)
    then show ?thesis using Cons.IH by simp
  next
    case False
    with Cons.prems have "\<exists>r\<in>set rows. parseable J m r" by auto
    then show ?thesis using Cons.IH by simp
  qed
qed

lemma rowIsEvent_default: "\<not> truthyKey (mevent m) \<Longrightarrow> rowIsEvent J m row"
  by (auto simp: rowIsEvent_def getValueOpt_def truthyKey_def split: option.splits)

text \<open>
  Claim C10: for every rows collection and every mapping whose time field is set but
  whose event and survival fields are both absent, \<^verbatim>\<open>buildSeries\<close> is the event-based
  construction; there a row counts as an event unless its censoring flag parses to true,
  so the events tallied over all groups are exactly the rows with a parseable time whose
  censoring flag is not true; and as soon as one row has a parseable time the result is
  not the empty array.
\<close>

theorem time_only_mapping_counts_events:
  assumes "mtime m \<noteq> []" and "\<not> truthyKey (mevent m)" and "\<not> truthyKey (msurvival m)"
  shows "buildSeries J rows m = buildEventSeries J rows m
         \<and> (\<forall>row. countsAsEvent J m row \<longleftrightarrow> rowCensorFlag m row \<noteq> Some True)
         \<and> eventCount (groupEventRows J m rows) =
             length (filter (\<lambda>row. parseNumber J (getValue row (mtime m)) \<noteq> None
                                   \<and> rowCensorFlag m row \<noteq> Some True) rows)
         \<and> ((\<exists>row\<in>set rows. parseNumber J (getValue row (mtime m)) \<noteq> None)
              \<longrightarrow> buildSeries J rows m \<noteq> [])"
proof -
  have d: "buildSeries J rows m = buildEventSeries J rows m"
    using assms by (simp add: buildSeries_def)
  have c: "countsAsEvent J m row \<longleftrightarrow> rowCensorFlag m row \<noteq> Some True" for row
    using rowIsEvent_default [OF assms(2), of J row]
    by (auto simp: countsAsEvent_def rowCensored_def split: option.splits)
  have n: "eventCount (groupEventRows J m rows) =
             length (filter (\<lambda>row. parseNumber J (getValue row (mtime m)) \<noteq> None
                                   \<and> rowCensorFlag m row \<noteq> Some True) rows)"
    using eventCount_fold [of J m rows "[]"]
    by (simp add: groupEventRows_def eventCount_def parseable_def c)
  have e: "buildSeries J rows m \<noteq> []"
    if "\<exists>row\<in>set rows. parseNumber J (getValue row (mtime m)) \<noteq> None"
    using fold_addEventRow_nonempty [of rows J m "[]"] that
    by (simp add: d buildEventSeries_def groupEventRows_def parseable_def)
  from d c n e show ?thesis by blast
qed

theorem time_only_mapping_counts_events_witness:
  "buildSeries sampleEnv timeOnlyData timeOnlyMapping =
     [\<lparr>group = ''Group'',
       steps = [\<lparr>time = 0, survival = 100, atRisk = Some 2\<rparr>,
                \<lparr>time = 3, survival = 50, atRisk = Some 2\<rparr>,
                \<lparr>time = 7, survival = 50, atRisk = Some 1\<rparr>],
       censored = [\<lparr>ctime = 7, csurvival = 50\<rparr>],
       atRiskMap = [(0, 2), (3, 2), (7, 1)]\<rparr>]
   \<and> buildSeries sampleEnv timeOnlyData timeOnlyMapping =
       buildEventSeries sampleEnv timeOnlyData timeOnlyMapping
   \<and> eventCount (groupEventRows sampleEnv timeOnlyMapping timeOnlyData) = 1
   \<and> buildSeries sampleEnv timeOnlyData timeOnlyMapping \<noteq> []"
proof -
  have a: "mtime timeOnlyMapping \<noteq> []" "\<not> truthyKey (mevent timeOnlyMapping)"
    "\<not> truthyKey (msurvival timeOnlyMapping)"
    by (simp_all add: timeOnlyMapping_def truthyKey_def)
  have p: "\<exists>row\<in>set timeOnlyData.
             parseNumber sampleEnv (getValue row (mtime timeOnlyMapping)) \<noteq> None"
    by code_simp
  have f: "length (filter (\<lambda>row. parseNumber sampleEnv (getValue row (mtime timeOnlyMapping)) \<noteq> None
                                   \<and> rowCensorFlag timeOnlyMapping row \<noteq> Some True)
             timeOnlyData) = 1"
    by code_simp
  have v: "buildEventSeries sampleEnv timeOnlyData timeOnlyMapping =
     [\<lparr>group = ''Group'',
       steps = [\<lparr>time = 0, survival = 100, atRisk = Some 2\<rparr>,
                \<lparr>time = 3, survival = 50, atRisk = Some 2\<rparr>,
                \<lparr>time = 7, survival = 50, atRisk = Some 1\<rparr>],
       censored = [\<lparr>ctime = 7, csurvival = 50\<rparr>],
       atRiskMap = [(0, 2), (3, 2), (7, 1)]\<rparr>]"
    by code_simp
  show ?thesis
    using time_only_mapping_counts_events [OF a, of sampleEnv timeOnlyData] p f v by simp
qed

subsection \<open>At-risk lookup on the series that are built\<close>











end
